(* ===== verification/Prelude.thy ===== *)
theory Prelude
  imports Main
begin

text \<open>
  Shared vocabulary of the development. The program is TypeScript, so the values it
  computes with are JavaScript numbers: a token total is a sum of metric samples, and a
  sample whose \<open>total\<close> field is absent turns the sum into \<open>NaN\<close>. The type
  \<open>jsnum\<close> keeps exactly the two kinds of value the program can produce: an integral
  count (the metric totals are integral token counts, exact in a double below \<open>2^53\<close>)
  and \<open>NaN\<close>. Addition and \<open>>\<close> are written as JavaScript evaluates them; \<open>js_le\<close>
  is the order along which a stored usage value may move. The theory also names the
  time type, the outcome of an external call, and declares the collections that the component theories fill.
\<close>

named_theorems store_ops "unfolding rules of the table-store operations"
named_theorems step_simps "equations of the reconciliation's atomic steps"

type_synonym timestamp = nat

text \<open>The outcome of one call to an external service (the table store or the mail
  service): the service answers by its contract, or the call fails, with the HTTP status
  code of the error response when there is one.\<close>

datatype outcome = Nominal | Fault "nat option"

datatype jsnum = Num int | NaN

fun js_add :: "jsnum \<Rightarrow> jsnum \<Rightarrow> jsnum" where
  "js_add (Num a) (Num b) = Num (a + b)"
| "js_add _ _ = NaN"

fun js_gt :: "jsnum \<Rightarrow> jsnum \<Rightarrow> bool" where
  "js_gt (Num a) (Num b) = (b < a)"
| "js_gt _ _ = False"

definition js_le :: "jsnum \<Rightarrow> jsnum \<Rightarrow> bool" where
  "js_le a b \<longleftrightarrow> a = b \<or> js_gt b a"

text \<open>Template-literal printing of a number (\<open>`${n}`\<close>): decimal digits, a minus sign
  for a negative value, and the text \<open>NaN\<close>.\<close>

definition digit_char :: "nat \<Rightarrow> char" where
  "digit_char d = ''0123456789'' ! d"

fun dec_digits :: "nat \<Rightarrow> string" where
  "dec_digits n =
     (if n < 10 then [digit_char n]
      else dec_digits (n div 10) @ [digit_char (n mod 10)])"

declare dec_digits.simps [simp del]

definition int_to_string :: "int \<Rightarrow> string" where
  "int_to_string i =
     (if i < 0 then CHR ''-'' # dec_digits (nat (- i)) else dec_digits (nat i))"

fun js_to_string :: "jsnum \<Rightarrow> string" where
  "js_to_string (Num i) = int_to_string i"
| "js_to_string NaN = ''NaN''"

subsection \<open>Generic facts on JavaScript numbers\<close>

lemma js_gt_NaN [simp]: "\<not> js_gt NaN b" "\<not> js_gt a NaN"
  by (cases a; simp)+

lemma js_gt_irrefl [simp]: "\<not> js_gt a a"
  by (cases a) simp_all

lemma js_gt_trans: "js_gt a b \<Longrightarrow> js_gt b c \<Longrightarrow> js_gt a c"
  by (cases a; cases b; cases c) simp_all

lemma js_gt_Num_iff: "js_gt a (Num b) \<longleftrightarrow> (\<exists>x. a = Num x \<and> b < x)"
  by (cases a) simp_all

lemma js_le_refl [simp]: "js_le a a"
  by (simp add: js_le_def)

lemma js_le_trans: "js_le a b \<Longrightarrow> js_le b c \<Longrightarrow> js_le a c"
  unfolding js_le_def by (blast intro: js_gt_trans)

lemma js_le_NaN [simp]: "js_le NaN b \<longleftrightarrow> b = NaN" "js_le a NaN \<longleftrightarrow> a = NaN"
  by (auto simp: js_le_def)

lemma js_le_Num [simp]: "js_le (Num a) (Num b) \<longleftrightarrow> a \<le> b"
  by (auto simp: js_le_def)

lemma js_le_of_gt: "js_gt b a \<Longrightarrow> js_le a b"
  by (simp add: js_le_def)

lemma js_add_NaN [simp]: "js_add NaN b = NaN" "js_add a NaN = NaN"
  by (cases a; simp)+

subsection \<open>Generic facts on lists\<close>

text \<open>Replacing one element of a list by one of smaller measure lowers the list's total
  measure: the termination argument of every interleaving.\<close>

lemma sum_list_update_less:
  "i < length xs \<Longrightarrow> (f :: 'a \<Rightarrow> nat) x < f (xs ! i) \<Longrightarrow>
     sum_list (map f (xs[i := x])) < sum_list (map f xs)"
proof (induction xs arbitrary: i)
  case Nil
  then show ?case by simp
next
  case (Cons y xs)
  then show ?case by (cases i) auto
qed

end
