(* ===== verification/Store.thy ===== *)
theory Store
  imports Prelude
begin

text \<open>
  The usage-record store: an Azure Table reached through \<open>tableClient\<close>
  (\<open>src/src/functions/httpTrigger.ts\<close>, lines 19--23). A record is the
  \<open>TableEntity\<close> the program builds at lines 69--75: the partition key, the row key
  \<open>deploymentName-month\<close>, the token total \<open>SumToken\<close>, the flag \<open>ActionDone\<close>
  and the time stamp \<open>LastUpdated\<close>. The table is a map from (partition key, row key)
  to the entity. The three calls the program makes, \<open>getEntity\<close>,
  \<open>createEntity\<close> and \<open>updateEntity\<close>, are modelled from the store contract of the
  specification (section 4.1; the SDK is not part of the repository): each call either
  reaches the service, which answers by its contract (\<open>Nominal\<close>), or fails with a
  \<open>RestError\<close> carrying a status code or none (\<open>Fault\<close>), and then leaves the
  table unchanged. \<open>updateEntity\<close> is called in its default merge mode with an entity
  that carries every property, so it replaces the stored one.
\<close>

record entity =
  partitionKey :: string
  rowKey :: string
  SumToken :: jsnum
  ActionDone :: bool
  LastUpdated :: timestamp

type_synonym key = "string \<times> string"
type_synonym table = "key \<rightharpoonup> entity"

datatype rest_error = RestError (statusCode: "nat option")

definition entity_key :: "entity \<Rightarrow> key" where
  "entity_key e = (partitionKey e, rowKey e)"

definition getEntity :: "outcome \<Rightarrow> table \<Rightarrow> string \<Rightarrow> string \<Rightarrow> rest_error + entity" where
  "getEntity oc t pk rk =
     (case oc of
        Fault c \<Rightarrow> Inl (RestError c)
      | Nominal \<Rightarrow>
          (case t (pk, rk) of
             None \<Rightarrow> Inl (RestError (Some 404))
           | Some e \<Rightarrow> Inr e))"

definition createEntity :: "outcome \<Rightarrow> table \<Rightarrow> entity \<Rightarrow> rest_error + table" where
  "createEntity oc t e =
     (case oc of
        Fault c \<Rightarrow> Inl (RestError c)
      | Nominal \<Rightarrow>
          (if entity_key e \<in> dom t then Inl (RestError (Some 409))
           else Inr (t(entity_key e \<mapsto> e))))"

definition updateEntity :: "outcome \<Rightarrow> table \<Rightarrow> entity \<Rightarrow> rest_error + table" where
  "updateEntity oc t e =
     (case oc of
        Fault c \<Rightarrow> Inl (RestError c)
      | Nominal \<Rightarrow>
          (if entity_key e \<in> dom t then Inr (t(entity_key e \<mapsto> e))
           else Inl (RestError (Some 404))))"

declare getEntity_def [store_ops] createEntity_def [store_ops] updateEntity_def [store_ops]

subsection \<open>What each call does to the table\<close>

text \<open>A call changes at most the entry of the entity's own key, and only to that entity.\<close>

lemma createEntity_Inr:
  "createEntity oc t e = Inr t' \<longleftrightarrow>
     oc = Nominal \<and> t (entity_key e) = None \<and> t' = t(entity_key e \<mapsto> e)"
  by (auto simp: createEntity_def split: outcome.splits)

lemma updateEntity_Inr:
  "updateEntity oc t e = Inr t' \<longleftrightarrow>
     oc = Nominal \<and> t (entity_key e) \<noteq> None \<and> t' = t(entity_key e \<mapsto> e)"
  by (auto simp: updateEntity_def split: outcome.splits)

lemma getEntity_Inr:
  "getEntity oc t pk rk = Inr e \<longleftrightarrow> oc = Nominal \<and> t (pk, rk) = Some e"
  by (auto simp: getEntity_def split: outcome.splits option.splits)

lemma getEntity_404:
  "getEntity oc t pk rk = Inl (RestError (Some 404)) \<longleftrightarrow>
     oc = Fault (Some 404) \<or> (oc = Nominal \<and> t (pk, rk) = None)"
  by (auto simp: getEntity_def split: outcome.splits option.splits)

lemma createEntity_409:
  "oc = Nominal \<Longrightarrow> t (entity_key e) \<noteq> None \<Longrightarrow>
     createEntity oc t e = Inl (RestError (Some 409))"
  by (auto simp: createEntity_def)

lemmas store_write_Inr = createEntity_Inr updateEntity_Inr

subsection \<open>Well-formed tables\<close>

text \<open>The service files every entity under its own keys: a table is well formed when
  each entry's partition and row key are the key it is stored under. Every call keeps
  this, and a read from a well-formed table returns an entity with the keys asked for.\<close>

definition wf_table :: "table \<Rightarrow> bool" where
  "wf_table t \<longleftrightarrow> (\<forall>k e. t k = Some e \<longrightarrow> entity_key e = k)"

lemma wf_table_empty [simp]: "wf_table Map.empty"
  by (simp add: wf_table_def)

lemma wf_table_upd [intro]: "wf_table t \<Longrightarrow> entity_key e = k \<Longrightarrow> wf_table (t(k \<mapsto> e))"
  by (simp add: wf_table_def)

lemma wf_table_Some: "wf_table t \<Longrightarrow> t k = Some e \<Longrightarrow> entity_key e = k"
  unfolding wf_table_def by blast

lemma wf_table_write:
  "wf_table t \<Longrightarrow> createEntity oc t e = Inr t' \<or> updateEntity oc t e = Inr t' \<Longrightarrow> wf_table t'"
  by (auto simp: store_write_Inr)

lemma wf_table_get:
  "wf_table t \<Longrightarrow> getEntity oc t pk rk = Inr e \<Longrightarrow> entity_key e = (pk, rk)"
  by (simp add: wf_table_def getEntity_Inr)

lemma create_then_get:
  "createEntity Nominal t e = Inr t' \<Longrightarrow>
     getEntity Nominal t' (partitionKey e) (rowKey e) = Inr e"
  by (auto simp: createEntity_Inr getEntity_Inr entity_key_def)

end
