(* ===== verification/Policy.thy ===== *)
theory Policy
  imports Store
begin

text \<open>
  The alert policy (\<open>httpTrigger.ts\<close>, line 30 and lines 47--52): the fixed
  \<open>THRESHOLD\<close> and the pure decision \<open>shouldSendAlert\<close>. The argument
  \<open>entity\<close> is \<open>TableEntity | null\<close>, read with optional chaining: for \<open>null\<close>
  the expression \<open>!entity?.ActionDone\<close> is \<open>!undefined\<close>, that is true. The
  comparison \<open>sumToken > THRESHOLD\<close> is JavaScript's, so a \<open>NaN\<close> total never
  alerts.
\<close>

definition THRESHOLD :: int where
  "THRESHOLD = 1000"

definition shouldSendAlert :: "entity option \<Rightarrow> jsnum \<Rightarrow> bool" where
  "shouldSendAlert entity sumToken \<longleftrightarrow>
     \<not> (case entity of None \<Rightarrow> False | Some e \<Rightarrow> ActionDone e) \<and> js_gt sumToken (Num THRESHOLD)"

lemma shouldSendAlert_Some:
  "shouldSendAlert (Some e) s \<longleftrightarrow> \<not> ActionDone e \<and> js_gt s (Num THRESHOLD)"
  by (simp add: shouldSendAlert_def)

lemma shouldSendAlert_None:
  "shouldSendAlert None s \<longleftrightarrow> js_gt s (Num THRESHOLD)"
  by (simp add: shouldSendAlert_def)

lemma shouldSendAlert_NaN [simp]: "\<not> shouldSendAlert r NaN"
  by (simp add: shouldSendAlert_def)

lemmas policy_simps = shouldSendAlert_Some shouldSendAlert_None

subsection \<open>The policy's contract\<close>

text \<open>C2: the policy alerts exactly when the observed total is a number above 1000
  and the record, if there is one, has no alert recorded; so a record with an alert
  recorded never alerts again, a total of at most 1000 never alerts, and a total above
  1000 with no record always alerts (specification, section 8).\<close>

theorem shouldSendAlert_iff:
  "shouldSendAlert r s \<longleftrightarrow>
     (\<exists>n. s = Num n \<and> 1000 < n) \<and> (case r of None \<Rightarrow> True | Some e \<Rightarrow> \<not> ActionDone e)"
  by (cases r; cases s) (auto simp: shouldSendAlert_def THRESHOLD_def)

end
