(* ===== verification/Mail.thy ===== *)
theory Mail
  imports Prelude
begin

text \<open>
  The notifier (\<open>httpTrigger.ts\<close>, lines 25--33 and 107--127). \<open>sendMail\<close> builds
  an \<open>EmailMessage\<close> from the configured sender and recipient, with the subject and the
  plain text of lines 119--120 (numbers printed as template literals print them), starts
  the send and polls it to its end, returning the final status. The Communication
  Services client is external: the model takes the call's outcome as an input. A
  \<open>Nominal\<close> call delivers the message and reports \<open>Succeeded\<close>; any other
  outcome (a failed, cancelled or throwing send) delivers nothing and reports a status
  that is not \<open>Succeeded\<close>, which is all the caller distinguishes (line 85).
\<close>

record config =
  emailSenderAddress :: string
  emailRecipientAddress :: string

record email_message =
  senderAddress :: string
  recipients_to :: "string list"
  subject :: string
  plainText :: string

definition alert_message :: "config \<Rightarrow> int \<Rightarrow> string \<Rightarrow> jsnum \<Rightarrow> email_message" where
  "alert_message c threshold deploymentName sumToken =
     \<lparr>senderAddress = emailSenderAddress c,
      recipients_to = [emailRecipientAddress c],
      subject = ''[Alert!] '' @ deploymentName @ '' has exceeded the threshold'',
      plainText = ''The deployment '' @ deploymentName @ '' has exceeded the threshold of ''
        @ int_to_string threshold @ '' tokens this month. The total token usage is ''
        @ js_to_string sumToken @ ''.''\<rparr>"

definition sendMail ::
  "outcome \<Rightarrow> config \<Rightarrow> int \<Rightarrow> string \<Rightarrow> jsnum \<Rightarrow> email_message list
     \<Rightarrow> string \<times> email_message list" where
  "sendMail oc c threshold deploymentName sumToken outbox =
     (case oc of
        Nominal \<Rightarrow> (''Succeeded'', outbox @ [alert_message c threshold deploymentName sumToken])
      | Fault _ \<Rightarrow> (''Failed'', outbox))"

lemma sendMail_status_Succeeded:
  "fst (sendMail oc c th n s ob) = ''Succeeded'' \<longleftrightarrow> oc = Nominal"
  by (simp add: sendMail_def split: outcome.splits)

end
