(* ===== verification/Reconcile.thy ===== *)
theory Reconcile
  imports Policy Mail
begin

text \<open>
  The reconciler, \<open>evaluateTokenUsageForAlert\<close> (\<open>httpTrigger.ts\<close>, lines
  54--105), as a machine of atomic steps. The function is \<open>async\<close>: between two
  \<open>await\<close>s its code runs without interruption, and at each \<open>await\<close> other
  reconciliations of the same invocation (or of an overlapping one) may run. A
  reconciliation in flight is therefore a \<open>task\<close>: its arguments, the row key, and a
  \<open>phase\<close> that names the \<open>await\<close> it is suspended at together with the local
  variable \<open>entity\<close> at that point. One step (\<open>task_step\<close>) lets the awaited call
  take effect at the service and runs the synchronous code after it up to the next
  \<open>await\<close>; it is the dispatch to the five \<open>resume_*\<close> definitions, one per
  \<open>await\<close> of the source. The shared state is the \<open>world\<close>: the table, the
  delivered mail, the console log and the clock.

  The whole body sits in a \<open>try\<close> whose \<open>catch\<close> (lines 102--104) logs the error
  and returns: every failing call ends the task in \<open>Failed\<close> with an
  \<open>ErrorProcessing\<close> line (\<open>fail_with\<close>). Each \<open>new Date()\<close> reads the clock;
  the clock advances by one at each \<open>await\<close>, since time passes while a call is in
  flight.

  \<open>run_task\<close> runs one task alone to its end, taking the outcome of each external call
  from a list (an empty list means every further call behaves nominally). Every step
  lowers the phase's \<open>rank\<close>, so the run ends after at most five steps: this is its
  termination proof. \<open>evaluateTokenUsageForAlert\<close> is that run from the start.
\<close>

datatype failure = StoreFailure rest_error | MailFailure

datatype log_entry =
    AlertMailSent string
  | NoAlertNeeded string
  | ErrorProcessing string failure

record world =
  tbl :: table
  outbox :: "email_message list"
  logs :: "log_entry list"
  clock :: timestamp
  cfg :: config

datatype phase =
    AtGet
  | AtCreate entity
  | AtMail entity
  | AtMarkSent entity
  | AtUpdSum entity
  | Done
  | Failed

record task =
  tdeploymentName :: string
  tsumToken :: jsnum
  trowKey :: string
  tpc :: phase

definition PARTITION :: string where
  "PARTITION = ''DeploymentType''"

definition rowKey_of :: "string \<Rightarrow> string \<Rightarrow> string" where
  "rowKey_of deploymentName month = deploymentName @ ''-'' @ month"

definition start_task :: "string \<Rightarrow> jsnum \<Rightarrow> string \<Rightarrow> task" where
  "start_task deploymentName sumToken month =
     \<lparr>tdeploymentName = deploymentName, tsumToken = sumToken,
      trowKey = rowKey_of deploymentName month, tpc = AtGet\<rparr>"

definition tick :: "world \<Rightarrow> world" where
  "tick w = w\<lparr>clock := Suc (clock w)\<rparr>"

definition log_line :: "log_entry \<Rightarrow> world \<Rightarrow> world" where
  "log_line l w = w\<lparr>logs := logs w @ [l]\<rparr>"

definition fail_with :: "failure \<Rightarrow> world \<Rightarrow> task \<Rightarrow> world \<times> task" where
  "fail_with f w t = (log_line (ErrorProcessing (tdeploymentName t) f) w, t\<lparr>tpc := Failed\<rparr>)"

definition new_entity :: "string \<Rightarrow> jsnum \<Rightarrow> timestamp \<Rightarrow> entity" where
  "new_entity rk sumToken now =
     \<lparr>partitionKey = PARTITION, rowKey = rk, SumToken = sumToken,
      ActionDone = False, LastUpdated = now\<rparr>"

text \<open>Lines 97--101 up to the \<open>await\<close> of the second \<open>updateEntity\<close>.\<close>

definition check_sum :: "world \<Rightarrow> task \<Rightarrow> entity \<Rightarrow> world \<times> task" where
  "check_sum w t entity =
     (if js_gt (tsumToken t) (SumToken entity)
      then (w, t\<lparr>tpc := AtUpdSum (entity\<lparr>SumToken := tsumToken t, LastUpdated := clock w\<rparr>)\<rparr>)
      else (w, t\<lparr>tpc := Done\<rparr>))"

text \<open>Lines 83--95 up to the \<open>await\<close> of \<open>sendMail\<close>, or, when no alert is due,
  through line 94 and on into lines 97--101.\<close>

definition decide_alert :: "world \<Rightarrow> task \<Rightarrow> entity \<Rightarrow> world \<times> task" where
  "decide_alert w t entity =
     (if shouldSendAlert (Some entity) (tsumToken t) then (w, t\<lparr>tpc := AtMail entity\<rparr>)
      else check_sum (log_line (NoAlertNeeded (tdeploymentName t)) w) t entity)"

text \<open>After \<open>await tableClient.getEntity\<close> (lines 65--79).\<close>

definition resume_get :: "outcome \<Rightarrow> world \<Rightarrow> task \<Rightarrow> world \<times> task" where
  "resume_get oc w t =
     (case getEntity oc (tbl w) PARTITION (trowKey t) of
        Inr entity \<Rightarrow> decide_alert w t entity
      | Inl err \<Rightarrow>
          (if statusCode err = Some 404
           then (w, t\<lparr>tpc := AtCreate (new_entity (trowKey t) (tsumToken t) (clock w))\<rparr>)
           else fail_with (StoreFailure err) w t))"

text \<open>After \<open>await tableClient.createEntity\<close> (line 76); a failure, a conflict
  included, propagates to the outer \<open>catch\<close>.\<close>

definition resume_create :: "outcome \<Rightarrow> world \<Rightarrow> task \<Rightarrow> entity \<Rightarrow> world \<times> task" where
  "resume_create oc w t entity =
     (case createEntity oc (tbl w) entity of
        Inr tb \<Rightarrow> decide_alert (w\<lparr>tbl := tb\<rparr>) t entity
      | Inl err \<Rightarrow> fail_with (StoreFailure err) w t)"

text \<open>After \<open>await sendMail\<close> (lines 84--92).\<close>

definition resume_mail :: "outcome \<Rightarrow> world \<Rightarrow> task \<Rightarrow> entity \<Rightarrow> world \<times> task" where
  "resume_mail oc w t entity =
     (case sendMail oc (cfg w) THRESHOLD (tdeploymentName t) (tsumToken t) (outbox w) of
        (result, ob) \<Rightarrow>
          (if result = ''Succeeded''
           then (log_line (AlertMailSent (tdeploymentName t)) (w\<lparr>outbox := ob\<rparr>),
                 t\<lparr>tpc := AtMarkSent (entity\<lparr>ActionDone := True, LastUpdated := clock w\<rparr>)\<rparr>)
           else fail_with MailFailure (w\<lparr>outbox := ob\<rparr>) t))"

text \<open>After the first \<open>await tableClient.updateEntity\<close> (line 89), on into lines
  97--101.\<close>

definition resume_mark :: "outcome \<Rightarrow> world \<Rightarrow> task \<Rightarrow> entity \<Rightarrow> world \<times> task" where
  "resume_mark oc w t entity =
     (case updateEntity oc (tbl w) entity of
        Inr tb \<Rightarrow> check_sum (w\<lparr>tbl := tb\<rparr>) t entity
      | Inl err \<Rightarrow> fail_with (StoreFailure err) w t)"

text \<open>After the second \<open>await tableClient.updateEntity\<close> (line 100).\<close>

definition resume_update :: "outcome \<Rightarrow> world \<Rightarrow> task \<Rightarrow> entity \<Rightarrow> world \<times> task" where
  "resume_update oc w t entity =
     (case updateEntity oc (tbl w) entity of
        Inr tb \<Rightarrow> (w\<lparr>tbl := tb\<rparr>, t\<lparr>tpc := Done\<rparr>)
      | Inl err \<Rightarrow> fail_with (StoreFailure err) w t)"

definition task_step :: "outcome \<Rightarrow> world \<Rightarrow> task \<Rightarrow> world \<times> task" where
  "task_step oc w t =
     (case tpc t of
        AtGet \<Rightarrow> resume_get oc (tick w) t
      | AtCreate e \<Rightarrow> resume_create oc (tick w) t e
      | AtMail e \<Rightarrow> resume_mail oc (tick w) t e
      | AtMarkSent e \<Rightarrow> resume_mark oc (tick w) t e
      | AtUpdSum e \<Rightarrow> resume_update oc (tick w) t e
      | Done \<Rightarrow> (w, t)
      | Failed \<Rightarrow> (w, t))"

fun terminal :: "phase \<Rightarrow> bool" where
  "terminal Done = True"
| "terminal Failed = True"
| "terminal _ = False"

fun rank :: "phase \<Rightarrow> nat" where
  "rank AtGet = 5"
| "rank (AtCreate _) = 4"
| "rank (AtMail _) = 3"
| "rank (AtMarkSent _) = 2"
| "rank (AtUpdSum _) = 1"
| "rank Done = 0"
| "rank Failed = 0"

fun next_outcome :: "outcome list \<Rightarrow> outcome \<times> outcome list" where
  "next_outcome [] = (Nominal, [])"
| "next_outcome (oc # os) = (oc, os)"

lemmas resume_defs = resume_get_def resume_create_def resume_mail_def resume_mark_def
  resume_update_def

lemmas sync_defs = decide_alert_def check_sum_def fail_with_def log_line_def tick_def

declare resume_defs [step_simps] sync_defs [step_simps]

lemma task_step_rank:
  "\<not> terminal (tpc t) \<Longrightarrow> rank (tpc (snd (task_step oc w t))) < rank (tpc t)"
  by (cases "tpc t")
    (auto simp: task_step_def step_simps sendMail_def
      split: sum.splits if_splits outcome.splits)

function run_task :: "outcome list \<Rightarrow> world \<Rightarrow> task \<Rightarrow> world \<times> task \<times> outcome list" where
  "run_task os w t =
     (if terminal (tpc t) then (w, t, os)
      else (case next_outcome os of
              (oc, os') \<Rightarrow> (case task_step oc w t of (w', t') \<Rightarrow> run_task os' w' t')))"
  by pat_completeness auto
termination
  by (relation "measure (\<lambda>(os, w, t). rank (tpc t))") (auto simp: case_prod_beta intro: task_step_rank)

declare run_task.simps [simp del]

definition evaluateTokenUsageForAlert ::
  "string \<Rightarrow> jsnum \<Rightarrow> string \<Rightarrow> outcome list \<Rightarrow> world \<Rightarrow> world \<times> outcome list" where
  "evaluateTokenUsageForAlert deploymentName sumToken month os w =
     (case run_task os w (start_task deploymentName sumToken month) of
        (w', t', os') \<Rightarrow> (w', os'))"

subsection \<open>Running a task\<close>

lemma run_task_terminal [simp]: "terminal (tpc t) \<Longrightarrow> run_task os w t = (w, t, os)"
  by (simp add: run_task.simps)

lemma run_task_step:
  "\<not> terminal (tpc t) \<Longrightarrow> run_task os w t =
     (case next_outcome os of (oc, os') \<Rightarrow> (case task_step oc w t of (w', t') \<Rightarrow> run_task os' w' t'))"
  by (subst run_task.simps) simp

text \<open>A step changes only the phase of the task.\<close>

lemma task_step_task: "snd (task_step oc w t) = t\<lparr>tpc := tpc (snd (task_step oc w t))\<rparr>"
  by (cases "tpc t")
    (auto simp: task_step_def step_simps sendMail_def split: sum.splits if_splits outcome.splits)

lemma task_step_fields [simp]:
  "tdeploymentName (snd (task_step oc w t)) = tdeploymentName t"
  "tsumToken (snd (task_step oc w t)) = tsumToken t"
  "trowKey (snd (task_step oc w t)) = trowKey t"
  by (subst task_step_task; simp)+

text \<open>A property of the world and the task that every step keeps holds at the end of the
  run: the induction over \<open>run_task\<close> that the invariants below share.\<close>

lemma run_task_inv:
  assumes step: "\<And>oc w t. P w t \<Longrightarrow> \<not> terminal (tpc t) \<Longrightarrow>
      P (fst (task_step oc w t)) (snd (task_step oc w t))"
    and start: "P w t"
  shows "P (fst (run_task os w t)) (fst (snd (run_task os w t)))"
  using start
proof (induction os w t rule: run_task.induct)
  case (1 os w t)
  show ?case
  proof (cases "terminal (tpc t)")
    case True
    with "1.prems" show ?thesis by simp
  next
    case False
    obtain oc os' where o: "next_outcome os = (oc, os')" by fastforce
    obtain w' t' where s: "task_step oc w t = (w', t')" by fastforce
    from step[OF "1.prems" False, of oc] s have "P w' t'" by simp
    with "1.IH"[OF False o[symmetric] s[symmetric]] False o s show ?thesis
      by (simp add: run_task_step)
  qed
qed

lemma run_task_nominal_inv:
  assumes step: "\<And>w t. P w t \<Longrightarrow> \<not> terminal (tpc t) \<Longrightarrow>
      P (fst (task_step Nominal w t)) (snd (task_step Nominal w t))"
    and start: "P w t" and nil: "os = []"
  shows "P (fst (run_task os w t)) (fst (snd (run_task os w t)))"
  using start nil
proof (induction os w t rule: run_task.induct)
  case (1 os w t)
  show ?case
  proof (cases "terminal (tpc t)")
    case True
    with "1.prems" show ?thesis by simp
  next
    case False
    obtain w' t' where s: "task_step Nominal w t = (w', t')" by fastforce
    from step[OF "1.prems"(1) False] s have "P w' t'" by simp
    with "1.IH"[OF False _ s[symmetric]] "1.prems"(2) False s show ?thesis
      by (simp add: run_task_step)
  qed
qed

lemma run_task_ends: "terminal (tpc (fst (snd (run_task os w t))))"
proof (induction os w t rule: run_task.induct)
  case (1 os w t)
  then show ?case
    by (cases "terminal (tpc t)") (auto simp: run_task_step split: prod.splits)
qed

subsection \<open>The per-key order, the task invariant and the contract\<close>

text \<open>
  \<open>entry_le a b\<close>: the stored record may move from \<open>a\<close> to \<open>b\<close> under the
  specification's data-model invariants (section 3): a record, once there, stays; its
  \<open>SumToken\<close> only grows; its \<open>ActionDone\<close> never returns to false.
  \<open>table_le\<close> lifts this to every key. \<open>task_inv\<close> says what a suspended task
  knows of the stored record at its key when it runs alone: the entity it holds is filed
  under that key and is above the stored one, and one waiting for the mail result has no
  alert recorded. \<open>reconcile_spec\<close> is the contract of a reconciliation
  (specification, sections 4.2, 4.3 and 8) on a record seen as (usage, alert sent):
  whether to alert, the new high-water mark \<open>max\<close>, and the new alert flag.
\<close>

definition entry_le :: "entity option \<Rightarrow> entity option \<Rightarrow> bool" where
  "entry_le a b \<longleftrightarrow>
     (case a of
        None \<Rightarrow> True
      | Some x \<Rightarrow>
          (case b of
             None \<Rightarrow> False
           | Some y \<Rightarrow> js_le (SumToken x) (SumToken y) \<and> (ActionDone x \<longrightarrow> ActionDone y)))"

definition table_le :: "table \<Rightarrow> table \<Rightarrow> bool" where
  "table_le t t' \<longleftrightarrow> (\<forall>k. entry_le (t k) (t' k))"

definition task_key :: "task \<Rightarrow> key" where
  "task_key t = (PARTITION, trowKey t)"

definition task_inv :: "table \<Rightarrow> task \<Rightarrow> bool" where
  "task_inv tb t \<longleftrightarrow>
     (case tpc t of
        AtCreate e \<Rightarrow> entity_key e = task_key t
      | AtMail e \<Rightarrow> entity_key e = task_key t \<and> entry_le (tb (task_key t)) (Some e) \<and> \<not> ActionDone e
      | AtMarkSent e \<Rightarrow> entity_key e = task_key t \<and> entry_le (tb (task_key t)) (Some e)
      | AtUpdSum e \<Rightarrow> entity_key e = task_key t \<and> entry_le (tb (task_key t)) (Some e)
      | _ \<Rightarrow> True)"

definition run_inv :: "world \<Rightarrow> task \<Rightarrow> world \<Rightarrow> task \<Rightarrow> bool" where
  "run_inv w0 t0 w t \<longleftrightarrow>
     wf_table (tbl w) \<and> task_inv (tbl w) t \<and> table_le (tbl w0) (tbl w) \<and>
     task_key t = task_key t0 \<and> cfg w = cfg w0 \<and>
     (\<forall>k. k \<noteq> task_key t0 \<longrightarrow> tbl w k = tbl w0 k) \<and>
     (\<forall>x. tbl w0 (task_key t0) = Some x \<longrightarrow> ActionDone x \<longrightarrow> outbox w = outbox w0)"

definition usage_view :: "entity option \<Rightarrow> (jsnum \<times> bool) option" where
  "usage_view r = map_option (\<lambda>e. (SumToken e, ActionDone e)) r"

definition ent_view :: "entity \<Rightarrow> jsnum \<times> bool" where
  "ent_view e = (SumToken e, ActionDone e)"

definition reconcile_spec :: "(int \<times> bool) option \<Rightarrow> int \<Rightarrow> bool \<times> int \<times> bool" where
  "reconcile_spec prev u =
     (case prev of
        None \<Rightarrow> (THRESHOLD < u, u, THRESHOLD < u)
      | Some (c, sent) \<Rightarrow> (THRESHOLD < u \<and> \<not> sent, max c u, sent \<or> THRESHOLD < u))"

definition demo_config :: config where
  "demo_config = \<lparr>emailSenderAddress = ''alerts@example.com'', emailRecipientAddress = ''ops@example.com''\<rparr>"

definition demo_world :: "table \<Rightarrow> world" where
  "demo_world tb = \<lparr>tbl = tb, outbox = [], logs = [], clock = 0, cfg = demo_config\<rparr>"

definition demo_entity :: "string \<Rightarrow> int \<Rightarrow> bool \<Rightarrow> entity" where
  "demo_entity rk c done = \<lparr>partitionKey = PARTITION, rowKey = rk, SumToken = Num c,
     ActionDone = done, LastUpdated = 0\<rparr>"

text \<open>Successive scheduled invocations for one deployment within one month, each run
  alone and with every external call behaving nominally.\<close>

definition alert_recorded :: "table \<Rightarrow> key \<Rightarrow> bool" where
  "alert_recorded tb k = (case tb k of None \<Rightarrow> False | Some e \<Rightarrow> ActionDone e)"

fun evaluate_seq :: "string \<Rightarrow> string \<Rightarrow> jsnum list \<Rightarrow> world \<Rightarrow> world" where
  "evaluate_seq n m [] w = w"
| "evaluate_seq n m (u # us) w = evaluate_seq n m us (fst (evaluateTokenUsageForAlert n u m [] w))"

subsection \<open>Facts on the order and on single steps\<close>

lemma entry_le_refl [simp]: "entry_le a a"
  by (auto simp: entry_le_def split: option.splits)

lemma entry_le_trans: "entry_le a b \<Longrightarrow> entry_le b c \<Longrightarrow> entry_le a c"
  by (auto simp: entry_le_def split: option.splits intro: js_le_trans)

lemma table_le_refl [simp]: "table_le t t"
  by (simp add: table_le_def)

lemma table_le_trans: "table_le a b \<Longrightarrow> table_le b c \<Longrightarrow> table_le a c"
  unfolding table_le_def by (blast intro: entry_le_trans)

lemma entry_le_None [simp]: "entry_le None b" "entry_le (Some x) None = False"
  by (simp_all add: entry_le_def)

lemma entry_le_Some_Some:
  "entry_le (Some x) (Some y) \<longleftrightarrow> js_le (SumToken x) (SumToken y) \<and> (ActionDone x \<longrightarrow> ActionDone y)"
  by (simp add: entry_le_def)

lemma entry_le_mark:
  "entry_le a (Some e) \<Longrightarrow> entry_le a (Some (e\<lparr>ActionDone := True, LastUpdated := s\<rparr>))"
  by (auto simp: entry_le_def split: option.splits)

lemma entry_le_raise:
  "entry_le a (Some e) \<Longrightarrow> js_gt u (SumToken e) \<Longrightarrow>
     entry_le a (Some (e\<lparr>SumToken := u, LastUpdated := s\<rparr>))"
  by (auto simp: entry_le_def split: option.splits intro: js_le_trans js_le_of_gt)

lemma table_le_write:
  "entry_le (t k) (Some e) \<Longrightarrow> table_le t (t(k \<mapsto> e))"
  by (simp add: table_le_def)

lemmas entry_le_steps = entry_le_mark entry_le_raise entry_le_Some_Some

lemma entity_key_upd [simp]:
  "entity_key (e\<lparr>SumToken := u\<rparr>) = entity_key e"
  "entity_key (e\<lparr>ActionDone := b\<rparr>) = entity_key e"
  "entity_key (e\<lparr>LastUpdated := s\<rparr>) = entity_key e"
  "entity_key (new_entity rk u s) = (PARTITION, rk)"
  by (simp_all add: entity_key_def new_entity_def)

lemma task_key_upd [simp]: "task_key (t\<lparr>tpc := p\<rparr>) = task_key t"
  by (simp add: task_key_def)

lemma task_step_inv:
  assumes wf: "wf_table (tbl w)" and inv: "task_inv (tbl w) t"
    and st: "task_step oc w t = (w', t')"
  shows "wf_table (tbl w') \<and> task_inv (tbl w') t' \<and> table_le (tbl w) (tbl w') \<and>
    (\<forall>k. k \<noteq> task_key t \<longrightarrow> tbl w' k = tbl w k)"
proof (cases "tpc t")
  case AtGet
  show ?thesis
  proof (cases "getEntity oc (tbl w) PARTITION (trowKey t)")
    case (Inr e)
    with wf have "entity_key e = task_key t" "tbl w (task_key t) = Some e"
      by (simp_all add: wf_table_get task_key_def getEntity_Inr)
    with wf AtGet Inr st show ?thesis
      by (auto simp: task_step_def step_simps task_inv_def policy_simps entry_le_Some_Some
          split: if_splits intro: js_le_of_gt)
  next
    case (Inl err)
    with wf AtGet st show ?thesis
      by (auto simp: task_step_def step_simps task_inv_def task_key_def split: if_splits)
  qed
next
  case (AtCreate e)
  with wf inv st show ?thesis
    by (auto simp: task_step_def step_simps task_inv_def policy_simps createEntity_Inr wf_table_upd
        entry_le_Some_Some table_le_write
        split: sum.splits if_splits intro: js_le_of_gt)
next
  case (AtMail e)
  with wf inv st show ?thesis
    by (auto simp: task_step_def step_simps task_inv_def sendMail_def
        split: outcome.splits intro: entry_le_mark)
next
  case (AtMarkSent e)
  with wf inv st show ?thesis
    by (auto simp: task_step_def step_simps task_inv_def updateEntity_Inr wf_table_upd
        entry_le_Some_Some table_le_write
        split: sum.splits if_splits intro: entry_le_raise js_le_of_gt)
next
  case (AtUpdSum e)
  with wf inv st show ?thesis
    by (auto simp: task_step_def step_simps task_inv_def updateEntity_Inr table_le_write wf_table_upd
        split: sum.splits if_splits)
qed (use wf st in \<open>auto simp: task_step_def task_inv_def\<close>)

lemma task_step_outbox:
  "outbox (fst (task_step oc w t)) = outbox w @
     (case tpc t of
        AtMail e \<Rightarrow>
          (if oc = Nominal then [alert_message (cfg w) THRESHOLD (tdeploymentName t) (tsumToken t)]
           else [])
      | _ \<Rightarrow> [])"
  by (cases "tpc t")
    (auto simp: task_step_def step_simps sendMail_def split: sum.splits if_splits outcome.splits)

lemma task_step_cfg [simp]: "cfg (fst (task_step oc w t)) = cfg w"
  by (cases "tpc t")
    (auto simp: task_step_def step_simps sendMail_def split: sum.splits if_splits outcome.splits)

lemma task_inv_start [simp]: "task_inv tb (start_task n u m)"
  by (simp add: task_inv_def start_task_def)

lemma task_key_step [simp]: "task_key (snd (task_step oc w t)) = task_key t"
  by (simp add: task_key_def)

lemma no_mail_when_recorded:
  assumes "table_le t0 t" "t0 k = Some x" "ActionDone x" "entry_le (t k) (Some e)"
  shows "ActionDone e"
proof -
  from assms(1) have "entry_le (t0 k) (t k)" unfolding table_le_def by blast
  with assms(2,3) obtain y where "t k = Some y" "ActionDone y"
    by (auto simp: entry_le_def split: option.splits)
  with assms(4) show ?thesis by (simp add: entry_le_def)
qed

lemma run_inv_step:
  assumes inv: "run_inv w0 t0 w t"
  shows "run_inv w0 t0 (fst (task_step oc w t)) (snd (task_step oc w t))"
proof -
  obtain w' t' where st: "task_step oc w t = (w', t')" by fastforce
  from inv have wf: "wf_table (tbl w)" and ti: "task_inv (tbl w) t"
    by (simp_all add: run_inv_def)
  from task_step_inv[OF wf ti st] have
    step: "wf_table (tbl w') \<and> task_inv (tbl w') t' \<and> table_le (tbl w) (tbl w') \<and>
      (\<forall>k. k \<noteq> task_key t \<longrightarrow> tbl w' k = tbl w k)" .
  have mail: "outbox w' = outbox w"
    if "tbl w0 (task_key t0) = Some x" "ActionDone x" for x
  proof (cases "tpc t")
    case (AtMail e)
    with ti have "entry_le (tbl w (task_key t)) (Some e)" "\<not> ActionDone e"
      by (simp_all add: task_inv_def)
    with inv that have False
      using no_mail_when_recorded[of "tbl w0" "tbl w" "task_key t" x e]
      by (simp add: run_inv_def)
    then show ?thesis ..
  qed (use st task_step_outbox[of oc w t] in simp_all)
  from inv step mail st task_step_cfg[of oc w t] task_key_step[of oc w t] show ?thesis
    by (auto simp: run_inv_def intro: table_le_trans)
qed

lemma run_task_run_inv:
  assumes "wf_table (tbl w)" "task_inv (tbl w) t"
  shows "run_inv w t (fst (run_task os w t)) (fst (snd (run_task os w t)))"
proof (rule run_task_inv[where P = "run_inv w t"])
  show "run_inv w t w t" using assms by (simp add: run_inv_def)
qed (rule run_inv_step)

lemma evaluate_run_inv:
  assumes "wf_table (tbl w)" "evaluateTokenUsageForAlert n u m os w = (w', os')"
  shows "run_inv w (start_task n u m) w' (fst (snd (run_task os w (start_task n u m))))"
  using run_task_run_inv[OF assms(1) task_inv_start, of n u m os] assms(2)
  by (simp add: evaluateTokenUsageForAlert_def split: prod.splits)

lemma task_key_start [simp]: "task_key (start_task n u m) = (PARTITION, rowKey_of n m)"
  by (simp add: task_key_def start_task_def)







lemma usage_view_Some [simp]: "usage_view (Some e) = Some (ent_view e)"
  by (simp add: usage_view_def ent_view_def)

lemma usage_view_None [simp]: "usage_view None = None"
  by (simp add: usage_view_def)

lemmas run_simps = evaluateTokenUsageForAlert_def start_task_def run_task_step task_step_def
  step_simps store_ops new_entity_def sendMail_def policy_simps domIff

lemma demo_wf [simp]: "wf_table [(PARTITION, rk) \<mapsto> demo_entity rk c d]"
  by (simp add: wf_table_def demo_entity_def entity_key_def)

lemma demo_entity_fields [simp]:
  "ActionDone (demo_entity rk c d) = d" "SumToken (demo_entity rk c d) = Num c"
  by (simp_all add: demo_entity_def)

lemma demo_world_simps [simp]:
  "tbl (demo_world tb) = tb" "outbox (demo_world tb) = []" "cfg (demo_world tb) = demo_config"
  by (simp_all add: demo_world_def)

lemma demo_rowKey [simp]: "rowKey_of ''gpt4dev'' ''2024-10'' = ''gpt4dev-2024-10''"
  by (simp add: rowKey_of_def)

lemma evaluate_nominal_outbox:
  assumes wf: "wf_table (tbl w)" and run: "evaluateTokenUsageForAlert n u m [] w = (w', os')"
  shows "outbox w' = outbox w \<or>
    (length (outbox w') = Suc (length (outbox w)) \<and> alert_recorded (tbl w') (PARTITION, rowKey_of n m))"
proof (cases "tbl w (PARTITION, rowKey_of n m)")
  case None
  with run show ?thesis
    by (auto simp: run_simps alert_recorded_def entity_key_def split: if_splits)
next
  case (Some e)
  with wf have k: "entity_key e = (PARTITION, rowKey_of n m)" by (simp add: wf_table_def)
  from Some k run show ?thesis
    by (auto simp: run_simps alert_recorded_def split: if_splits)
qed

lemma evaluate_recorded_stays:
  assumes "wf_table (tbl w)" "evaluateTokenUsageForAlert n u m os w = (w', os')"
    and "alert_recorded (tbl w) (PARTITION, rowKey_of n m)"
  shows "alert_recorded (tbl w') (PARTITION, rowKey_of n m) \<and> outbox w' = outbox w \<and> wf_table (tbl w')"
proof -
  from evaluate_run_inv[OF assms(1,2)] have
    "table_le (tbl w) (tbl w')" "wf_table (tbl w')"
    "\<forall>x. tbl w (PARTITION, rowKey_of n m) = Some x \<longrightarrow> ActionDone x \<longrightarrow> outbox w' = outbox w"
    by (simp_all add: run_inv_def)
  moreover from this(1) have "entry_le (tbl w (PARTITION, rowKey_of n m)) (tbl w' (PARTITION, rowKey_of n m))"
    unfolding table_le_def by blast
  ultimately show ?thesis using assms(3)
    by (auto simp: alert_recorded_def entry_le_def split: option.splits)
qed

lemma evaluate_seq_bound:
  "wf_table (tbl w) \<Longrightarrow>
     (alert_recorded (tbl w) (PARTITION, rowKey_of n m) \<longrightarrow> outbox (evaluate_seq n m us w) = outbox w) \<and>
     length (outbox (evaluate_seq n m us w)) \<le> Suc (length (outbox w))"
proof (induction us arbitrary: w)
  case Nil
  then show ?case by simp
next
  case (Cons u us)
  obtain w1 os1 where run: "evaluateTokenUsageForAlert n u m [] w = (w1, os1)" by fastforce
  from evaluate_run_inv[OF Cons.prems run] have wf1: "wf_table (tbl w1)" by (simp add: run_inv_def)
  note IH = Cons.IH[OF wf1]
  show ?case
  proof (cases "alert_recorded (tbl w) (PARTITION, rowKey_of n m)")
    case True
    with evaluate_recorded_stays[OF Cons.prems run] IH run show ?thesis by simp
  next
    case False
    from evaluate_nominal_outbox[OF Cons.prems run] IH run False show ?thesis by auto
  qed
qed

subsection \<open>Properties of one reconciliation\<close>

text \<open>C1: with every call behaving nominally, one reconciliation implements the
  contract: on a record seen as (usage, alert sent), or on no record, the stored record
  afterwards carries the high-water mark \<open>max\<close> of the old usage and the new total,
  the alert flag is set exactly when it was set or the total is above the threshold, and
  exactly one alert mail is delivered when the policy says so, none otherwise.\<close>

theorem evaluate_refines_spec:
  assumes wf: "wf_table (tbl w)"
    and pre: "usage_view (tbl w (PARTITION, rowKey_of n m)) = map_option (\<lambda>(c, s). (Num c, s)) prev"
    and run: "evaluateTokenUsageForAlert n (Num u) m [] w = (w', os')"
  shows "case reconcile_spec prev u of (alert, c', s') \<Rightarrow>
      usage_view (tbl w' (PARTITION, rowKey_of n m)) = Some (Num c', s') \<and>
      outbox w' = outbox w @ (if alert then [alert_message (cfg w) THRESHOLD n (Num u)] else [])"
proof (cases prev)
  case None
  with pre have "tbl w (PARTITION, rowKey_of n m) = None" by (simp add: usage_view_def)
  with None run show ?thesis
    by (auto simp: run_simps reconcile_spec_def usage_view_def entity_key_def split: if_splits)
next
  case (Some p)
  obtain c s where p: "p = (c, s)" by fastforce
  with Some pre obtain e where e: "tbl w (PARTITION, rowKey_of n m) = Some e"
    "SumToken e = Num c" "ActionDone e = s"
    by (auto simp: usage_view_def)
  with wf have k: "entity_key e = (PARTITION, rowKey_of n m)" by (simp add: wf_table_def)
  from Some p e k run show ?thesis
    by (auto simp: run_simps reconcile_spec_def usage_view_def split: if_splits)
qed

theorem evaluate_refines_spec_witness:
  "let w = demo_world Map.empty; r = evaluateTokenUsageForAlert ''gpt4dev'' (Num 1500) ''2024-10'' [] w
   in wf_table (tbl w) \<and>
      usage_view (tbl w (PARTITION, rowKey_of ''gpt4dev'' ''2024-10'')) = map_option (\<lambda>(c, s). (Num c, s)) None \<and>
      usage_view (tbl (fst r) (PARTITION, rowKey_of ''gpt4dev'' ''2024-10'')) = Some (Num 1500, True) \<and>
      outbox (fst r) = [alert_message demo_config THRESHOLD ''gpt4dev'' (Num 1500)]"
proof -
  let ?w = "demo_world Map.empty"
  have wf: "wf_table (tbl ?w)" by simp
  have pre: "usage_view (tbl ?w (PARTITION, rowKey_of ''gpt4dev'' ''2024-10'')) = map_option (\<lambda>(c, s). (Num c, s)) None"
    by (simp add: usage_view_def)
  show ?thesis
    using evaluate_refines_spec[OF wf pre surjective_pairing, of 1500] wf pre
    by (simp add: reconcile_spec_def THRESHOLD_def)
qed

text \<open>C3: whatever the external calls do, a reconciliation keeps the table well formed
  and moves every stored record only upward: a record once created stays, its
  \<open>SumToken\<close> never decreases and its \<open>ActionDone\<close> never returns to false.\<close>

theorem evaluate_monotone:
  "wf_table (tbl w) \<Longrightarrow> evaluateTokenUsageForAlert n u m os w = (w', os') \<Longrightarrow>
     wf_table (tbl w') \<and> table_le (tbl w) (tbl w')"
  by (drule (1) evaluate_run_inv) (simp add: run_inv_def)

theorem evaluate_monotone_witness:
  "let w = demo_world [(PARTITION, ''gpt4dev-2024-10'') \<mapsto> demo_entity ''gpt4dev-2024-10'' 1500 True];
       w' = fst (evaluateTokenUsageForAlert ''gpt4dev'' (Num 1800) ''2024-10'' [Nominal, Fault None] w)
   in wf_table (tbl w) \<and> wf_table (tbl w') \<and> table_le (tbl w) (tbl w')"
proof -
  let ?w = "demo_world [(PARTITION, ''gpt4dev-2024-10'') \<mapsto> demo_entity ''gpt4dev-2024-10'' 1500 True]"
  have wf: "wf_table (tbl ?w)"
    by simp
  show ?thesis
    using evaluate_monotone[OF wf surjective_pairing, of "''gpt4dev''" "Num 1800" "''2024-10''" "[Nominal, Fault None]"] wf
    by simp
qed

text \<open>C4: once the stored record has an alert recorded, a reconciliation of that
  deployment and month sends no mail, whatever its total and whatever the external calls
  do (the idempotence of section 8).\<close>

theorem evaluate_no_second_alert:
  "wf_table (tbl w) \<Longrightarrow> tbl w (PARTITION, rowKey_of n m) = Some e \<Longrightarrow> ActionDone e \<Longrightarrow>
     evaluateTokenUsageForAlert n u m os w = (w', os') \<Longrightarrow> outbox w' = outbox w"
  by (drule (1) evaluate_run_inv) (simp add: run_inv_def)

theorem evaluate_no_second_alert_witness:
  "let e = demo_entity ''gpt4dev-2024-10'' 1500 True;
       w = demo_world [(PARTITION, ''gpt4dev-2024-10'') \<mapsto> e]
   in wf_table (tbl w) \<and> tbl w (PARTITION, rowKey_of ''gpt4dev'' ''2024-10'') = Some e \<and>
      ActionDone e \<and>
      outbox (fst (evaluateTokenUsageForAlert ''gpt4dev'' (Num 1800) ''2024-10'' [] w)) = outbox w"
proof -
  let ?e = "demo_entity ''gpt4dev-2024-10'' 1500 True"
  let ?w = "demo_world [(PARTITION, ''gpt4dev-2024-10'') \<mapsto> ?e]"
  have h: "wf_table (tbl ?w)" "tbl ?w (PARTITION, rowKey_of ''gpt4dev'' ''2024-10'') = Some ?e"
    "ActionDone ?e"
    by simp_all
  show ?thesis
    using evaluate_no_second_alert[OF h surjective_pairing, of "Num 1800" "[]"] h by simp
qed

text \<open>C5: successive invocations for one deployment and month, with every external
  call behaving nominally, deliver at most one alert mail in all.\<close>

theorem evaluate_seq_at_most_once:
  "wf_table (tbl w) \<Longrightarrow> length (outbox (evaluate_seq n m us w)) \<le> Suc (length (outbox w))"
  using evaluate_seq_bound by blast

theorem evaluate_seq_at_most_once_witness:
  "wf_table (tbl (demo_world Map.empty)) \<and>
   length (outbox (evaluate_seq ''gpt4dev'' ''2024-10'' [Num 900, Num 1500, Num 1800] (demo_world Map.empty)))
     \<le> Suc (length (outbox (demo_world Map.empty)))"
  using evaluate_seq_at_most_once[of "demo_world Map.empty" "''gpt4dev''" "''2024-10''"
      "[Num 900, Num 1500, Num 1800]"]
  by simp

text \<open>C6: a reconciliation changes no record but the one of its own deployment and
  month.\<close>

theorem evaluate_frame:
  "wf_table (tbl w) \<Longrightarrow> evaluateTokenUsageForAlert n u m os w = (w', os') \<Longrightarrow>
     k \<noteq> (PARTITION, rowKey_of n m) \<Longrightarrow> tbl w' k = tbl w k"
  by (drule (1) evaluate_run_inv) (cases k, simp add: run_inv_def)

theorem evaluate_frame_witness:
  "let w = demo_world [(PARTITION, ''gpt35-2024-10'') \<mapsto> demo_entity ''gpt35-2024-10'' 700 False]
   in wf_table (tbl w) \<and> (PARTITION, ''gpt35-2024-10'') \<noteq> (PARTITION, rowKey_of ''gpt4dev'' ''2024-10'') \<and>
      tbl (fst (evaluateTokenUsageForAlert ''gpt4dev'' (Num 1500) ''2024-10'' [] w)) (PARTITION, ''gpt35-2024-10'')
        = tbl w (PARTITION, ''gpt35-2024-10'')"
proof -
  let ?w = "demo_world [(PARTITION, ''gpt35-2024-10'') \<mapsto> demo_entity ''gpt35-2024-10'' 700 False]"
  have h: "wf_table (tbl ?w)" "(PARTITION, ''gpt35-2024-10'') \<noteq> (PARTITION, rowKey_of ''gpt4dev'' ''2024-10'')"
    by simp_all
  show ?thesis
    using evaluate_frame[OF h(1) surjective_pairing h(2), of "Num 1500" "[]"] h by simp
qed

text \<open>C7: when the alert mail fails (Scenario E), the reconciliation ends with the error
  logged, no mail delivered and the table untouched: \<open>ActionDone\<close> stays false, and
  the stored usage is not raised either, even when the new total exceeds it, because the
  thrown error skips lines 97--101.\<close>

theorem evaluate_mail_failure:
  assumes "wf_table (tbl w)" "tbl w (PARTITION, rowKey_of n m) = Some e" "\<not> ActionDone e"
    and "THRESHOLD < u"
    and "evaluateTokenUsageForAlert n (Num u) m [Nominal, Fault c] w = (w', os')"
  shows "tbl w' = tbl w \<and> outbox w' = outbox w \<and> logs w' = logs w @ [ErrorProcessing n MailFailure]"
  using assms by (auto simp: run_simps)

theorem evaluate_mail_failure_witness:
  "let e = demo_entity ''gpt4dev-2024-10'' 500 False;
       w = demo_world [(PARTITION, ''gpt4dev-2024-10'') \<mapsto> e];
       w' = fst (evaluateTokenUsageForAlert ''gpt4dev'' (Num 1500) ''2024-10'' [Nominal, Fault (Some 503)] w)
   in wf_table (tbl w) \<and> tbl w (PARTITION, rowKey_of ''gpt4dev'' ''2024-10'') = Some e \<and>
      \<not> ActionDone e \<and> THRESHOLD < 1500 \<and>
      tbl w' = tbl w \<and> outbox w' = outbox w \<and> logs w' = logs w @ [ErrorProcessing ''gpt4dev'' MailFailure]"
proof -
  let ?e = "demo_entity ''gpt4dev-2024-10'' 500 False"
  let ?w = "demo_world [(PARTITION, ''gpt4dev-2024-10'') \<mapsto> ?e]"
  have h: "wf_table (tbl ?w)" "tbl ?w (PARTITION, rowKey_of ''gpt4dev'' ''2024-10'') = Some ?e"
    "\<not> ActionDone ?e" "THRESHOLD < 1500"
    by (simp_all add: THRESHOLD_def)
  show ?thesis
    using evaluate_mail_failure[OF h surjective_pairing] h by simp
qed

text \<open>C8: when the mail is delivered but the write that records \<open>ActionDone\<close> fails,
  the next reconciliation, even with every call behaving nominally, delivers the same
  alert a second time (section 5 accepts such duplicates).\<close>

theorem evaluate_duplicate_alert:
  assumes "wf_table (tbl w)" "tbl w (PARTITION, rowKey_of n m) = Some e" "\<not> ActionDone e"
    and "THRESHOLD < u"
    and "evaluateTokenUsageForAlert n (Num u) m [Nominal, Nominal, Fault c] w = (w1, os1)"
    and "evaluateTokenUsageForAlert n (Num u) m [] w1 = (w2, os2)"
  shows "outbox w2 = outbox w @ [alert_message (cfg w) THRESHOLD n (Num u),
                                 alert_message (cfg w) THRESHOLD n (Num u)]"
proof -
  from assms(1,2) have "entity_key e = (PARTITION, rowKey_of n m)" by (simp add: wf_table_def)
  with assms show ?thesis by (auto simp: run_simps domIff split: if_splits)
qed

theorem evaluate_duplicate_alert_witness:
  "let e = demo_entity ''gpt4dev-2024-10'' 500 False;
       w = demo_world [(PARTITION, ''gpt4dev-2024-10'') \<mapsto> e];
       r1 = evaluateTokenUsageForAlert ''gpt4dev'' (Num 1500) ''2024-10'' [Nominal, Nominal, Fault None] w;
       r2 = evaluateTokenUsageForAlert ''gpt4dev'' (Num 1500) ''2024-10'' [] (fst r1)
   in wf_table (tbl w) \<and> tbl w (PARTITION, rowKey_of ''gpt4dev'' ''2024-10'') = Some e \<and>
      \<not> ActionDone e \<and> THRESHOLD < 1500 \<and>
      outbox (fst r2) = [alert_message demo_config THRESHOLD ''gpt4dev'' (Num 1500),
                         alert_message demo_config THRESHOLD ''gpt4dev'' (Num 1500)]"
proof -
  let ?e = "demo_entity ''gpt4dev-2024-10'' 500 False"
  let ?w = "demo_world [(PARTITION, ''gpt4dev-2024-10'') \<mapsto> ?e]"
  have h: "wf_table (tbl ?w)" "tbl ?w (PARTITION, rowKey_of ''gpt4dev'' ''2024-10'') = Some ?e"
    "\<not> ActionDone ?e" "THRESHOLD < 1500"
    by (simp_all add: THRESHOLD_def)
  show ?thesis
    using evaluate_duplicate_alert[OF h surjective_pairing surjective_pairing] h by simp
qed

lemma evaluate_keeps_NaN:
  assumes "wf_table (tbl w)" "evaluateTokenUsageForAlert n u m os w = (w', os')"
    and "tbl w k = Some e" "SumToken e = NaN"
  shows "\<exists>e'. tbl w' k = Some e' \<and> SumToken e' = NaN"
proof -
  from evaluate_run_inv[OF assms(1,2)] have "entry_le (tbl w k) (tbl w' k)"
    unfolding run_inv_def table_le_def by blast
  with assms(3,4) show ?thesis by (auto simp: entry_le_def split: option.splits)
qed

lemma evaluate_seq_keeps_NaN:
  "wf_table (tbl w) \<Longrightarrow> tbl w k = Some e \<Longrightarrow> SumToken e = NaN \<Longrightarrow>
     \<exists>e'. tbl (evaluate_seq n m us w) k = Some e' \<and> SumToken e' = NaN"
proof (induction us arbitrary: w e)
  case Nil
  then show ?case by auto
next
  case (Cons u us)
  obtain w1 os1 where run: "evaluateTokenUsageForAlert n u m [] w = (w1, os1)" by fastforce
  from evaluate_run_inv[OF Cons.prems(1) run] have wf1: "wf_table (tbl w1)" by (simp add: run_inv_def)
  from evaluate_keeps_NaN[OF Cons.prems(1) run Cons.prems(2,3)] obtain e1
    where "tbl w1 k = Some e1" "SumToken e1 = NaN" by blast
  from Cons.IH[OF wf1 this] run show ?case by simp
qed

lemma evaluate_new_NaN:
  "tbl w (PARTITION, rowKey_of n m) = None \<Longrightarrow> evaluateTokenUsageForAlert n NaN m [] w = (w', os') \<Longrightarrow>
     \<exists>e. tbl w' (PARTITION, rowKey_of n m) = Some e \<and> SumToken e = NaN"
  by (auto simp: run_simps entity_key_def)

end
