(* ===== verification/Concurrency.thy ===== *)
theory Concurrency
  imports Reconcile
begin

text \<open>
  Interleaved reconciliations. \<open>httpTrigger\<close> starts one
  \<open>evaluateTokenUsageForAlert\<close> per deployment (\<open>timeseries.map(async ...)\<close>,
  line 152) and joins them with \<open>Promise.all\<close> (line 161); two invocations of the
  trigger may also overlap. The event loop runs one task at a time from one \<open>await\<close>
  to the next, and which awaited call completes first is up to the services. A
  configuration is the shared world and the list of tasks; \<open>conc_step\<close> lets any
  unfinished task take one atomic step with any call outcome, and is labelled with the
  task's index and the outcome. \<open>conc_steps\<close> is the labelled trace relation.
  \<open>run_schedule\<close> is the same system as an executable function of the labels; the
  two agree exactly on schedules whose every label names an unfinished task.
\<close>

type_synonym conf = "world \<times> task list"

inductive conc_step :: "conf \<Rightarrow> nat \<times> outcome \<Rightarrow> conf \<Rightarrow> bool" where
  run: "i < length ts \<Longrightarrow> \<not> terminal (tpc (ts ! i)) \<Longrightarrow> task_step oc w (ts ! i) = (w', t') \<Longrightarrow>
        conc_step (w, ts) (i, oc) (w', ts[i := t'])"

inductive conc_steps :: "conf \<Rightarrow> (nat \<times> outcome) list \<Rightarrow> conf \<Rightarrow> bool" where
  refl: "conc_steps c [] c"
| step: "conc_step c l c' \<Longrightarrow> conc_steps c' ls c'' \<Longrightarrow> conc_steps c (l # ls) c''"

inductive_cases conc_step_elim: "conc_step c l c'"
inductive_cases conc_steps_NilE: "conc_steps c [] c'"
inductive_cases conc_steps_ConsE: "conc_steps c (l # ls) c'"

fun enabled :: "nat \<times> outcome \<Rightarrow> conf \<Rightarrow> bool" where
  "enabled (i, oc) (w, ts) \<longleftrightarrow> i < length ts \<and> \<not> terminal (tpc (ts ! i))"

fun sched_step :: "nat \<times> outcome \<Rightarrow> conf \<Rightarrow> conf" where
  "sched_step (i, oc) (w, ts) =
     (if enabled (i, oc) (w, ts)
      then (case task_step oc w (ts ! i) of (w', t') \<Rightarrow> (w', ts[i := t']))
      else (w, ts))"

fun run_schedule :: "(nat \<times> outcome) list \<Rightarrow> conf \<Rightarrow> conf" where
  "run_schedule [] c = c"
| "run_schedule (l # ls) c = run_schedule ls (sched_step l c)"

fun all_enabled :: "(nat \<times> outcome) list \<Rightarrow> conf \<Rightarrow> bool" where
  "all_enabled [] c = True"
| "all_enabled (l # ls) c = (enabled l c \<and> all_enabled ls (sched_step l c))"

text \<open>What a task still in flight will make of the record at its key when every
  further call behaves nominally and no other task touches that key: \<open>predict\<close> maps
  the task's phase, its total and the current view of the stored record to the final
  view. It is the abstract image of \<open>run_task\<close> that the interleaving argument
  carries; \<open>fan_inv\<close> says that every task of a configuration still predicts what it
  predicted at the start.\<close>

fun after_write :: "jsnum \<Rightarrow> jsnum \<times> bool \<Rightarrow> jsnum \<times> bool" where
  "after_write u (s, d) = (if js_gt u s then (u, d) else (s, d))"

fun decide_view :: "jsnum \<Rightarrow> jsnum \<times> bool \<Rightarrow> jsnum \<times> bool" where
  "decide_view u (s, d) =
     (if \<not> d \<and> js_gt u (Num THRESHOLD) then after_write u (s, True) else after_write u (s, d))"

fun predict :: "phase \<Rightarrow> jsnum \<Rightarrow> (jsnum \<times> bool) option \<Rightarrow> (jsnum \<times> bool) option" where
  "predict AtGet u v = Some (case v of None \<Rightarrow> decide_view u (u, False) | Some x \<Rightarrow> decide_view u x)"
| "predict (AtCreate e) u v = (case v of None \<Rightarrow> Some (decide_view u (ent_view e)) | Some x \<Rightarrow> Some x)"
| "predict (AtMail e) u v = map_option (\<lambda>_. after_write u (SumToken e, True)) v"
| "predict (AtMarkSent e) u v = map_option (\<lambda>_. after_write u (ent_view e)) v"
| "predict (AtUpdSum e) u v = map_option (\<lambda>_. ent_view e) v"
| "predict Done u v = v"
| "predict Failed u v = v"

definition fan_inv :: "world \<Rightarrow> task list \<Rightarrow> conf \<Rightarrow> bool" where
  "fan_inv w0 ts0 c \<longleftrightarrow>
     (case c of (w, ts) \<Rightarrow>
        wf_table (tbl w) \<and> length ts = length ts0 \<and>
        (\<forall>j < length ts0. task_inv (tbl w) (ts ! j) \<and> task_key (ts ! j) = task_key (ts0 ! j) \<and>
           tsumToken (ts ! j) = tsumToken (ts0 ! j) \<and>
           predict (tpc (ts ! j)) (tsumToken (ts0 ! j)) (usage_view (tbl w (task_key (ts0 ! j)))) =
           predict (tpc (ts0 ! j)) (tsumToken (ts0 ! j)) (usage_view (tbl w0 (task_key (ts0 ! j))))))"

text \<open>The two schedules of the race scenarios: the lost update of two overlapping
  reconciliations of one key, and two reconciliations that both find the key missing.\<close>

definition lost_update_schedule :: "(nat \<times> outcome) list" where
  "lost_update_schedule = [(0, Nominal), (1, Nominal), (0, Nominal), (0, Nominal), (0, Nominal), (1, Nominal)]"

definition create_race_schedule :: "(nat \<times> outcome) list" where
  "create_race_schedule = [(0, Nominal), (1, Nominal), (0, Nominal), (1, Nominal)]"

text \<open>A fan-out of two deployments and one complete interleaving of it.\<close>

definition fanout_schedule :: "(nat \<times> outcome) list" where
  "fanout_schedule = [(0, Nominal), (1, Nominal), (1, Nominal), (0, Nominal), (0, Nominal), (0, Nominal)]"

definition fanout_tasks :: "task list" where
  "fanout_tasks = [start_task ''gpt4dev'' (Num 1500) ''2024-10'', start_task ''gpt35'' (Num 700) ''2024-10'']"

definition finished :: "conf \<Rightarrow> bool" where
  "finished c \<longleftrightarrow> list_all (\<lambda>t. terminal (tpc t)) (snd c)"

subsection \<open>The relation and the scheduler agree\<close>

lemma conc_step_iff: "conc_step c l c' \<longleftrightarrow> enabled l c \<and> c' = sched_step l c"
proof
  assume "conc_step c l c'"
  then show "enabled l c \<and> c' = sched_step l c"
    by (induction rule: conc_step.induct) simp
next
  assume "enabled l c \<and> c' = sched_step l c"
  then show "conc_step c l c'"
    by (cases c; cases l) (auto intro: conc_step.run split: prod.splits)
qed

lemma conc_steps_iff_schedule:
  "conc_steps c ls c' \<longleftrightarrow> all_enabled ls c \<and> run_schedule ls c = c'"
proof (induction ls arbitrary: c)
  case Nil
  show ?case by (auto intro: conc_steps.refl elim: conc_steps_NilE)
next
  case (Cons l ls)
  have "conc_steps c (l # ls) c' \<longleftrightarrow> (\<exists>c1. conc_step c l c1 \<and> conc_steps c1 ls c')"
    by (blast intro: conc_steps.step elim: conc_steps_ConsE)
  also have "\<dots> \<longleftrightarrow> enabled l c \<and> conc_steps (sched_step l c) ls c'"
    by (auto simp: conc_step_iff)
  also have "\<dots> \<longleftrightarrow> all_enabled (l # ls) c \<and> run_schedule (l # ls) c = c'"
    by (simp add: Cons.IH)
  finally show ?case .
qed

subsection \<open>An unfinished configuration can step\<close>

lemma progress: "\<not> finished c \<Longrightarrow> \<exists>l c'. conc_step c l c'"
proof -
  assume "\<not> finished c"
  then obtain i where i: "i < length (snd c)" "\<not> terminal (tpc (snd c ! i))"
    by (auto simp: finished_def list_all_length)
  obtain w ts where c: "c = (w, ts)" by fastforce
  with i have "enabled (i, Nominal) c" by simp
  then show ?thesis by (auto simp: conc_step_iff)
qed

subsection \<open>Isolated runs and their prediction\<close>

lemma task_step_predict:
  assumes wf: "wf_table (tbl w)" and inv: "task_inv (tbl w) t"
    and st: "task_step Nominal w t = (w', t')"
  shows "predict (tpc t') (tsumToken t) (usage_view (tbl w' (task_key t))) =
    predict (tpc t) (tsumToken t) (usage_view (tbl w (task_key t)))"
proof (cases "tpc t")
  case AtGet
  show ?thesis
  proof (cases "tbl w (task_key t)")
    case None
    with AtGet st show ?thesis
      by (auto simp: task_step_def step_simps store_ops task_key_def new_entity_def ent_view_def)
  next
    case (Some e)
    with wf have "entity_key e = task_key t" by (rule wf_table_Some)
    with Some AtGet st show ?thesis
      by (auto simp: task_step_def step_simps store_ops task_key_def policy_simps ent_view_def
          split: if_splits)
  qed
next
  case (AtCreate e)
  with inv st show ?thesis
    by (auto simp: task_step_def step_simps store_ops task_inv_def policy_simps ent_view_def domIff
        split: if_splits option.splits)
next
  case (AtMail e)
  with inv st show ?thesis
    by (auto simp: task_step_def step_simps sendMail_def task_inv_def ent_view_def)
next
  case (AtMarkSent e)
  with inv st show ?thesis
    by (auto simp: task_step_def step_simps store_ops task_inv_def ent_view_def domIff
        split: if_splits option.splits)
next
  case (AtUpdSum e)
  with inv st show ?thesis
    by (auto simp: task_step_def step_simps store_ops task_inv_def ent_view_def domIff
        split: if_splits option.splits)
qed (use st in \<open>auto simp: task_step_def\<close>)

lemma predict_terminal: "terminal p \<Longrightarrow> predict p u v = v"
  by (cases p) simp_all

lemma run_task_predict:
  assumes "wf_table (tbl w)" "task_inv (tbl w) t"
  shows "usage_view (tbl (fst (run_task [] w t)) (task_key t)) =
    predict (tpc t) (tsumToken t) (usage_view (tbl w (task_key t)))"
proof -
  let ?P = "\<lambda>w' t'. wf_table (tbl w') \<and> task_inv (tbl w') t' \<and> task_key t' = task_key t \<and>
    tsumToken t' = tsumToken t \<and>
    predict (tpc t') (tsumToken t) (usage_view (tbl w' (task_key t))) =
    predict (tpc t) (tsumToken t) (usage_view (tbl w (task_key t)))"
  have "?P (fst (run_task [] w t)) (fst (snd (run_task [] w t)))"
  proof (rule run_task_nominal_inv)
    fix w' :: world and t' :: task
    assume P: "?P w' t'"
    obtain w'' t'' where st: "task_step Nominal w' t' = (w'', t'')" by fastforce
    from P task_step_inv[OF _ _ st] task_step_predict[OF _ _ st] st
    show "?P (fst (task_step Nominal w' t')) (snd (task_step Nominal w' t'))"
      by (metis fst_conv snd_conv task_key_step task_step_fields(2))
  qed (use assms in simp_all)
  with run_task_ends[of "[]" w t] show ?thesis by (simp add: predict_terminal)
qed

subsection \<open>Interleavings on distinct keys\<close>

lemma task_inv_cong: "tb (task_key t) = tb' (task_key t) \<Longrightarrow> task_inv tb t = task_inv tb' t"
  by (simp add: task_inv_def split: phase.splits)

lemma fan_inv_step:
  assumes d: "distinct (map task_key ts0)" and inv: "fan_inv w0 ts0 c"
    and st: "conc_step c (i, Nominal) c'"
  shows "fan_inv w0 ts0 c'"
  using st
proof (cases rule: conc_step.cases)
  case (run ts w w' t')
  from inv run have wf: "wf_table (tbl w)" and len: "length ts = length ts0"
    and each: "\<forall>j < length ts0. task_inv (tbl w) (ts ! j) \<and> task_key (ts ! j) = task_key (ts0 ! j) \<and>
           tsumToken (ts ! j) = tsumToken (ts0 ! j) \<and>
           predict (tpc (ts ! j)) (tsumToken (ts0 ! j)) (usage_view (tbl w (task_key (ts0 ! j)))) =
           predict (tpc (ts0 ! j)) (tsumToken (ts0 ! j)) (usage_view (tbl w0 (task_key (ts0 ! j))))"
    by (simp_all add: fan_inv_def)
  from run(3) len each have ti: "task_inv (tbl w) (ts ! i)" by simp
  note si = task_step_inv[OF wf ti run(5)]
  note pi = task_step_predict[OF wf ti run(5)]
  have key': "task_key t' = task_key (ts ! i)" "tsumToken t' = tsumToken (ts ! i)"
    using task_key_step[of Nominal w "ts ! i"] task_step_fields(2)[of Nominal w "ts ! i"] run(5) by simp_all
  have other: "tbl w' (task_key (ts0 ! j)) = tbl w (task_key (ts0 ! j))"
    if "j < length ts0" "j \<noteq> i" for j
  proof -
    have "task_key (ts0 ! j) \<noteq> task_key (ts0 ! i)"
      using nth_eq_iff_index_eq[OF d, of j i] that run(3) len by simp
    moreover have "task_key (ts ! i) = task_key (ts0 ! i)" using each run(3) len by simp
    moreover from si have "\<forall>k. k \<noteq> task_key (ts ! i) \<longrightarrow> tbl w' k = tbl w k" by blast
    ultimately show ?thesis by metis
  qed
  show ?thesis
    unfolding run(2) fan_inv_def
  proof (simp add: si len, intro allI impI)
    fix j assume j: "j < length ts0"
    show "task_inv (tbl w') (ts[i := t'] ! j) \<and> task_key (ts[i := t'] ! j) = task_key (ts0 ! j) \<and>
        tsumToken (ts[i := t'] ! j) = tsumToken (ts0 ! j) \<and>
        predict (tpc (ts[i := t'] ! j)) (tsumToken (ts0 ! j)) (usage_view (tbl w' (task_key (ts0 ! j)))) =
        predict (tpc (ts0 ! j)) (tsumToken (ts0 ! j)) (usage_view (tbl w0 (task_key (ts0 ! j))))"
    proof (cases "j = i")
      case True
      with j each si pi key' len show ?thesis by auto
    next
      case False
      with j other[OF j False] each len task_inv_cong[of "tbl w'" "ts ! j" "tbl w"] show ?thesis
        by auto
    qed
  qed
qed

lemma fan_inv_steps:
  "conc_steps c ls c' \<Longrightarrow> list_all (\<lambda>l. snd l = Nominal) ls \<Longrightarrow> distinct (map task_key ts0) \<Longrightarrow>
     fan_inv w0 ts0 c \<Longrightarrow> fan_inv w0 ts0 c'"
proof (induction rule: conc_steps.induct)
  case (refl c)
  then show ?case by simp
next
  case (step c l c' ls c'')
  obtain i oc where l: "l = (i, oc)" by fastforce
  with step.prems have "oc = Nominal" by simp
  with l step fan_inv_step[of ts0 w0 c i c'] show ?case by simp
qed

lemmas sched_simps = task_step_def step_simps store_ops new_entity_def sendMail_def policy_simps
  THRESHOLD_def start_task_def domIff entity_key_def demo_entity_def demo_world_def

subsection \<open>Properties of interleaved reconciliations\<close>

text \<open>C9: the reconciliations of one invocation run concurrently, but on distinct keys
  (one deployment each) and with every call behaving nominally, any complete interleaving
  leaves each key exactly as that reconciliation run alone would have left it.\<close>

theorem fanout_matches_isolated:
  assumes wf: "wf_table (tbl w)" and d: "distinct (map task_key ts)"
    and start: "list_all (\<lambda>t. tpc t = AtGet) ts"
    and run: "conc_steps (w, ts) ls c'" and nominal: "list_all (\<lambda>l. snd l = Nominal) ls"
    and fin: "finished c'" and i: "i < length ts"
  shows "usage_view (tbl (fst c') (task_key (ts ! i))) =
    usage_view (tbl (fst (run_task [] w (ts ! i))) (task_key (ts ! i)))"
proof -
  from start have "fan_inv w ts (w, ts)"
    using wf by (auto simp: fan_inv_def task_inv_def list_all_length)
  with fan_inv_steps[OF run nominal d] have inv: "fan_inv w ts c'" by simp
  obtain w' ts' where c': "c' = (w', ts')" by fastforce
  with inv i have len: "length ts' = length ts" and
    p: "predict (tpc (ts' ! i)) (tsumToken (ts ! i)) (usage_view (tbl w' (task_key (ts ! i)))) =
        predict (tpc (ts ! i)) (tsumToken (ts ! i)) (usage_view (tbl w (task_key (ts ! i))))"
    by (simp_all add: fan_inv_def)
  from fin c' len i have "terminal (tpc (ts' ! i))" by (simp add: finished_def list_all_length)
  with p have "usage_view (tbl w' (task_key (ts ! i))) =
      predict (tpc (ts ! i)) (tsumToken (ts ! i)) (usage_view (tbl w (task_key (ts ! i))))"
    by (simp add: predict_terminal)
  moreover from start i have "task_inv (tbl w) (ts ! i)"
    by (simp add: task_inv_def list_all_length)
  ultimately show ?thesis using run_task_predict[OF wf] c' by simp
qed

theorem fanout_matches_isolated_witness:
  "let w = demo_world Map.empty; c' = run_schedule fanout_schedule (w, fanout_tasks)
   in wf_table (tbl w) \<and> distinct (map task_key fanout_tasks) \<and>
      list_all (\<lambda>t. tpc t = AtGet) fanout_tasks \<and> conc_steps (w, fanout_tasks) fanout_schedule c' \<and>
      list_all (\<lambda>l. snd l = Nominal) fanout_schedule \<and> finished c' \<and> 0 < length fanout_tasks \<and>
      usage_view (tbl (fst c') (task_key (fanout_tasks ! 0))) =
      usage_view (tbl (fst (run_task [] w (fanout_tasks ! 0))) (task_key (fanout_tasks ! 0)))"
proof -
  let ?w = "demo_world Map.empty"
  let ?c = "run_schedule fanout_schedule (?w, fanout_tasks)"
  have h: "wf_table (tbl ?w)" "distinct (map task_key fanout_tasks)"
    "list_all (\<lambda>t. tpc t = AtGet) fanout_tasks"
    "conc_steps (?w, fanout_tasks) fanout_schedule ?c"
    "list_all (\<lambda>l. snd l = Nominal) fanout_schedule" "finished ?c" "0 < length fanout_tasks"
    by (simp_all add: fanout_tasks_def fanout_schedule_def start_task_def task_key_def rowKey_of_def
        conc_steps_iff_schedule finished_def sched_simps)
  show ?thesis using fanout_matches_isolated[OF h] h by simp
qed

text \<open>C10: two overlapping reconciliations of the same deployment and month can lose an
  update. Each writes back the whole entity it read, unconditionally (no ETag). Take any
  stored record with no alert and usage \<open>s0\<close>, a first reconciliation whose total
  \<open>u1\<close> crosses the threshold and a second one whose total \<open>u2\<close> is above
  \<open>s0\<close> but not above the threshold, interleaved as in \<open>lost_update_schedule\<close>: the
  first sends the alert and records it, the slower second overwrites the record with its
  stale copy. \<open>ActionDone\<close> returns to false and \<open>SumToken\<close> drops from \<open>u1\<close> to
  \<open>u2\<close>, against the invariants of section 3, and the next reconciliation that sees
  \<open>u1\<close> alerts a second time.\<close>

theorem overlapping_runs_reset_alert:
  assumes wf: "wf_table (tbl w)" and e: "tbl w (PARTITION, rowKey_of n m) = Some e"
    and fresh: "\<not> ActionDone e" "SumToken e = Num s0"
    and u: "THRESHOLD < u1" "u2 \<le> THRESHOLD" "s0 < u2"
    and run: "run_schedule lost_update_schedule
       (w, [start_task n (Num u1) m, start_task n (Num u2) m]) = (w', ts')"
  shows "finished (w', ts') \<and> outbox w' = outbox w @ [alert_message (cfg w) THRESHOLD n (Num u1)] \<and>
    usage_view (tbl w' (PARTITION, rowKey_of n m)) = Some (Num u2, False) \<and>
    outbox (fst (evaluateTokenUsageForAlert n (Num u1) m [] w')) =
      outbox w @ [alert_message (cfg w) THRESHOLD n (Num u1), alert_message (cfg w) THRESHOLD n (Num u1)]"
proof -
  from wf e have k: "entity_key e = (PARTITION, rowKey_of n m)" by (rule wf_table_Some)
  from u fresh have "js_gt (Num u1) (SumToken e)" "js_gt (Num u2) (SumToken e)" by simp_all
  with run e k fresh u show ?thesis
    by (auto simp: lost_update_schedule_def sched_simps finished_def usage_view_def
      evaluateTokenUsageForAlert_def run_task_step)
qed

theorem overlapping_runs_reset_alert_witness:
  "let w = demo_world [(PARTITION, ''gpt4dev-2024-10'') \<mapsto> demo_entity ''gpt4dev-2024-10'' 500 False];
       c = run_schedule lost_update_schedule
             (w, [start_task ''gpt4dev'' (Num 1500) ''2024-10'', start_task ''gpt4dev'' (Num 800) ''2024-10''])
   in usage_view (tbl (fst c) (PARTITION, ''gpt4dev-2024-10'')) = Some (Num 800, False) \<and>
      length (outbox (fst (evaluateTokenUsageForAlert ''gpt4dev'' (Num 1500) ''2024-10'' [] (fst c)))) = 2"
proof -
  let ?e = "demo_entity ''gpt4dev-2024-10'' 500 False"
  let ?w = "demo_world [(PARTITION, ''gpt4dev-2024-10'') \<mapsto> ?e]"
  have h: "wf_table (tbl ?w)" "tbl ?w (PARTITION, rowKey_of ''gpt4dev'' ''2024-10'') = Some ?e"
    "\<not> ActionDone ?e" "SumToken ?e = Num 500" "THRESHOLD < 1500" "800 \<le> THRESHOLD" "(500::int) < 800"
    by (simp_all add: demo_wf demo_world_def rowKey_of_def THRESHOLD_def)
  show ?thesis
    using overlapping_runs_reset_alert[OF h surjective_pairing] h
    by (simp add: rowKey_of_def demo_world_def)
qed

text \<open>C11: when two reconciliations of a new deployment and month both find the record
  missing (Scenario D), the second \<open>createEntity\<close> fails with 409 and, since the code
  does not re-read, that reconciliation ends with the conflict logged as an error and its
  total discarded; the record holds the first total.\<close>

theorem create_race_conflict:
  assumes "tbl w (PARTITION, rowKey_of n m) = None"
    and "run_schedule create_race_schedule (w, [start_task n u1 m, start_task n u2 m]) = (w', ts')"
  shows "tpc (ts' ! 1) = Failed \<and> last (logs w') = ErrorProcessing n (StoreFailure (RestError (Some 409))) \<and>
    map_option SumToken (tbl w' (PARTITION, rowKey_of n m)) = Some u1"
  using assms
  by (auto simp: create_race_schedule_def task_step_def step_simps store_ops new_entity_def policy_simps
      start_task_def domIff entity_key_def split: if_splits)

theorem create_race_conflict_witness:
  "let w = demo_world Map.empty;
       r = run_schedule create_race_schedule
             (w, [start_task ''gpt4dev'' (Num 1500) ''2024-10'', start_task ''gpt4dev'' (Num 1200) ''2024-10''])
   in tbl w (PARTITION, rowKey_of ''gpt4dev'' ''2024-10'') = None \<and>
      tpc (snd r ! 1) = Failed \<and>
      last (logs (fst r)) = ErrorProcessing ''gpt4dev'' (StoreFailure (RestError (Some 409))) \<and>
      map_option SumToken (tbl (fst r) (PARTITION, rowKey_of ''gpt4dev'' ''2024-10'')) = Some (Num 1500)"
proof -
  let ?w = "demo_world Map.empty"
  have h: "tbl ?w (PARTITION, rowKey_of ''gpt4dev'' ''2024-10'') = None" by simp
  show ?thesis using create_race_conflict[OF h surjective_pairing, of "Num 1500" "Num 1200"] h
    by simp
qed

end
