(* ===== verification/Calls.thy ===== *)
theory Calls
  imports Concurrency
begin

text \<open>
  How many external calls a reconciliation makes. The clock of the world advances by one
  at each \<open>await\<close>, so it counts the calls. \<open>calls_left\<close> bounds the calls a
  suspended task still makes: four from the start, since a record created by this
  reconciliation holds its total and is never updated a second time (lines 76 and 97).
  Every step lowers it, which bounds a reconciliation by four calls and an interleaving of
  \<open>n\<close> reconciliations by \<open>4 n\<close> steps; the same measure gives a finishing
  schedule from every configuration (\<open>reach_finished\<close>).
\<close>

definition sum_call :: "task \<Rightarrow> entity \<Rightarrow> nat" where
  "sum_call t e = (if js_gt (tsumToken t) (SumToken e) then 1 else 0)"

fun calls_left :: "task \<Rightarrow> nat" where
  "calls_left t =
     (case tpc t of
        AtGet \<Rightarrow> 4
      | AtCreate e \<Rightarrow> 3 + sum_call t e
      | AtMail e \<Rightarrow> 2 + sum_call t e
      | AtMarkSent e \<Rightarrow> 1 + sum_call t e
      | AtUpdSum e \<Rightarrow> 1
      | Done \<Rightarrow> 0
      | Failed \<Rightarrow> 0)"

definition total_calls :: "conf \<Rightarrow> nat" where
  "total_calls c = sum_list (map calls_left (snd c))"

lemma task_step_clock: "\<not> terminal (tpc t) \<Longrightarrow> clock (fst (task_step oc w t)) = Suc (clock w)"
  by (cases "tpc t")
    (auto simp: task_step_def step_simps sendMail_def split: sum.splits if_splits outcome.splits)

lemma task_step_calls:
  assumes "\<not> terminal (tpc t)"
  shows "Suc (calls_left (snd (task_step oc w t))) \<le> calls_left t"
  using assms
  by (cases "tpc t")
    (auto simp: task_step_def step_simps sendMail_def sum_call_def new_entity_def
      split: sum.splits if_splits outcome.splits)

lemma run_task_clock:
  "clock w \<le> clock (fst (run_task os w t)) \<and> clock (fst (run_task os w t)) \<le> clock w + calls_left t \<and>
   (\<not> terminal (tpc t) \<longrightarrow> clock w < clock (fst (run_task os w t)))"
proof (induction os w t rule: run_task.induct)
  case (1 os w t)
  show ?case
  proof (cases "terminal (tpc t)")
    case True
    then show ?thesis by simp
  next
    case False
    obtain oc os' where o: "next_outcome os = (oc, os')" by fastforce
    obtain w' t' where s: "task_step oc w t = (w', t')" by fastforce
    have c: "clock w' = Suc (clock w)" using task_step_clock[OF False, of oc w] s by simp
    have k: "Suc (calls_left t') \<le> calls_left t" using task_step_calls[OF False, of oc w] s by simp
    from "1.IH"[OF False o[symmetric] s[symmetric]] c k False o s show ?thesis
      by (simp add: run_task_step)
  qed
qed

text \<open>C19: a reconciliation makes between one and four external calls (store or mail),
  whatever their outcomes: never the five that its five \<open>await\<close>s would allow, since
  a newly created record is never updated for its total.\<close>

theorem evaluate_call_bound:
  "clock w < clock (fst (evaluateTokenUsageForAlert n u m os w)) \<and>
   clock (fst (evaluateTokenUsageForAlert n u m os w)) \<le> clock w + 4"
  using run_task_clock[of w os "start_task n u m"]
  by (simp add: evaluateTokenUsageForAlert_def start_task_def split_def)

lemma conc_step_calls: "conc_step c l c' \<Longrightarrow> total_calls c' < total_calls c"
proof (induction rule: conc_step.induct)
  case (run i ts oc w w' t')
  from task_step_calls[OF run(2), of oc w] run(3) have "calls_left t' < calls_left (ts ! i)"
    by simp
  with run(1) show ?case by (simp add: total_calls_def sum_list_update_less)
qed

lemma conc_steps_calls: "conc_steps c ls c' \<Longrightarrow> length ls + total_calls c' \<le> total_calls c"
proof (induction rule: conc_steps.induct)
  case (refl c)
  then show ?case by simp
next
  case (step c l c' ls c'')
  with conc_step_calls[OF step(1)] show ?case by simp
qed

lemma total_calls_start: "list_all (\<lambda>t. tpc t = AtGet) ts \<Longrightarrow> total_calls (w, ts) = 4 * length ts"
  by (induction ts) (auto simp: total_calls_def)

lemma reach_finished: "\<exists>ls c'. conc_steps c ls c' \<and> finished c'"
proof (induction c rule: measure_induct_rule[of total_calls])
  case (less c)
  show ?case
  proof (cases "finished c")
    case True
    then show ?thesis by (blast intro: conc_steps.refl)
  next
    case False
    with progress obtain l c1 where s: "conc_step c l c1" by blast
    from less[OF conc_step_calls[OF s]] obtain ls c' where "conc_steps c1 ls c'" "finished c'"
      by blast
    with s show ?thesis by (blast intro: conc_steps.step)
  qed
qed

end
