(* ===== verification/Clock.thy ===== *)
theory Clock
  imports Prelude
begin

text \<open>
  The clock readings of \<open>getCurrentMonthTimespan\<close> and \<open>getCurrentMonthString\<close>
  (\<open>httpTrigger.ts\<close>, lines 35--45). A \<open>Date\<close> is its time value, the milliseconds
  since the epoch; \<open>toISOString\<close> prints it in UTC, and the local-time constructor
  \<open>new Date(y, m, 1)\<close> reads its fields in the host's time zone, given here as a fixed
  offset from UTC in milliseconds. The calendar conversions follow the proleptic
  Gregorian calendar of ECMAScript (section 21.4.1); they are not code of the repository.
  The theory proves what the two functions need of them: the first day of every month
  converts back to its year and month, and every day falls in a month 1--12. On that
  basis it shows the shape of the month string and that, read at one instant on a UTC
  host, the timespan starts in the month the row key names.
\<close>

type_synonym time_value = int

definition msPerDay :: int where
  "msPerDay = 86400000"

text \<open>Day number to (year, month 1--12, day 1--31), by eras of 400 years.\<close>

definition civil_from_days :: "int \<Rightarrow> int \<times> int \<times> int" where
  "civil_from_days z0 =
     (let z = z0 + 719468; era = z div 146097; doe = z - era * 146097;
          yoe = (doe - doe div 1460 + doe div 36524 - doe div 146096) div 365;
          doy = doe - (365 * yoe + yoe div 4 - yoe div 100);
          mp = (5 * doy + 2) div 153;
          d = doy - (153 * mp + 2) div 5 + 1;
          m = (if mp < 10 then mp + 3 else mp - 9);
          y = yoe + era * 400
      in (if m \<le> 2 then y + 1 else y, m, d))"

definition days_from_civil :: "int \<Rightarrow> int \<Rightarrow> int \<Rightarrow> int" where
  "days_from_civil y0 m d =
     (let y = (if m \<le> 2 then y0 - 1 else y0); era = y div 400; yoe = y - era * 400;
          doy = (153 * (if 2 < m then m - 3 else m + 9) + 2) div 5 + d - 1;
          doe = yoe * 365 + yoe div 4 - yoe div 100 + doy
      in era * 146097 + doe - 719468)"

definition pad :: "nat \<Rightarrow> int \<Rightarrow> string" where
  "pad w n = (let s = dec_digits (nat n) in replicate (w - length s) CHR ''0'' @ s)"

definition year_string :: "int \<Rightarrow> string" where
  "year_string y =
     (if 0 \<le> y \<and> y \<le> 9999 then pad 4 y
      else (if y < 0 then CHR ''-'' else CHR ''+'') # pad 6 \<bar>y\<bar>)"

definition is_digit :: "char \<Rightarrow> bool" where
  "is_digit c \<longleftrightarrow> c \<in> set ''0123456789''"

text \<open>Reading back a printed number and the UTC year and month of a time value: the
  inverse of \<open>pad\<close> and the fields that \<open>getCurrentMonthString\<close> prints.\<close>

definition digit_value :: "char \<Rightarrow> nat" where
  "digit_value c = of_char c - 48"

definition dec_value :: "string \<Rightarrow> nat" where
  "dec_value s = foldl (\<lambda>a c. 10 * a + digit_value c) 0 s"

definition utc_year_month :: "time_value \<Rightarrow> int \<times> int" where
  "utc_year_month t = (case civil_from_days (t div msPerDay) of (y, m, d) \<Rightarrow> (y, m))"

definition toISOString :: "time_value \<Rightarrow> string" where
  "toISOString t =
     (case civil_from_days (t div msPerDay) of
        (y, m, d) \<Rightarrow>
          (let r = t mod msPerDay
           in year_string y @ ''-'' @ pad 2 m @ ''-'' @ pad 2 d @ ''T'' @
              pad 2 (r div 3600000) @ '':'' @ pad 2 (r div 60000 mod 60) @ '':'' @
              pad 2 (r div 1000 mod 60) @ ''.'' @ pad 3 (r mod 1000) @ ''Z''))"

text \<open>\<open>new Date(today.getFullYear(), today.getMonth(), 1)\<close> on a host whose local time
  is \<open>off\<close> milliseconds ahead of UTC.\<close>

definition local_month_start :: "int \<Rightarrow> time_value \<Rightarrow> time_value" where
  "local_month_start off today =
     (case civil_from_days ((today + off) div msPerDay) of
        (y, m, _) \<Rightarrow> days_from_civil y m 1 * msPerDay - off)"

definition getCurrentMonthTimespan :: "int \<Rightarrow> time_value \<Rightarrow> string" where
  "getCurrentMonthTimespan off today =
     toISOString (local_month_start off today) @ ''/'' @ toISOString today"

definition getCurrentMonthString :: "time_value \<Rightarrow> string" where
  "getCurrentMonthString now = take 7 (toISOString now)"

subsection \<open>Widths of the printed fields\<close>

lemma length_pad: "w \<le> length (pad w n)"
  by (simp add: pad_def Let_def)

lemma length_year_string: "4 \<le> length (year_string y)"
  using length_pad[of 4 y] length_pad[of 6 "\<bar>y\<bar>"] by (simp add: year_string_def)

lemma length_toISOString: "7 \<le> length (toISOString t)"
proof -
  obtain y m d where c: "civil_from_days (t div msPerDay) = (y, m, d)" by (metis prod_cases3)
  from length_year_string[of y] length_pad[of 2 m] show ?thesis
    by (simp add: toISOString_def c Let_def)
qed

lemma length_getCurrentMonthString [simp]: "length (getCurrentMonthString t) = 7"
  using length_toISOString[of t] by (simp add: getCurrentMonthString_def)

subsection \<open>The calendar: first days of months and the range of months\<close>

text \<open>The day number of the first of a month converts back to that year and month, for
  every year; and every day number converts to a month between 1 and 12. The proofs split a
  400-year era into centuries, four-year cycles and years (\<open>yoe_recover\<close>,
  \<open>doy_bound\<close>).\<close>

lemma div_two_cases: fixes x :: int
  assumes "0 \<le> x" "x < 2 * k" "0 < k"
  shows "x div k = (if x < k then 0 else 1)"
proof (cases "x < k")
  case True
  with assms show ?thesis by (simp add: div_pos_pos_trivial)
next
  case False
  then have "x div k = (x - k) div k + 1" using assms(3) by (simp add: div_add_self2 [symmetric])
  moreover have "(x - k) div k = 0" using False assms by (intro div_pos_pos_trivial) simp_all
  ultimately show ?thesis using False by simp
qed

lemma yoe_recover:
  fixes a r :: int
  assumes a: "0 \<le> a" "a \<le> 399" and r: "0 \<le> r" "r \<le> 337"
  defines "doe \<equiv> 365 * a + a div 4 - a div 100 + r"
  shows "0 \<le> doe \<and> doe \<le> 146068 \<and> (doe - doe div 1460 + doe div 36524 - doe div 146096) div 365 = a"
proof -
  define q s c a' where "q = a div 4" "s = a mod 4" "c = a div 100" "a' = a mod 100"
  have as: "a = 4 * q + s" "0 \<le> s" "s \<le> 3" unfolding q_s_c_a'_def by simp_all
  have ac: "a = 100 * c + a'" "0 \<le> a'" "a' \<le> 99" unfolding q_s_c_a'_def by simp_all
  have "a = a' + (25 * c) * 4" using ac(1) by simp
  then have q4: "q = 25 * c + a' div 4" unfolding q_s_c_a'_def(1) by simp
  have a'4: "0 \<le> a' div 4" "a' div 4 \<le> 24" using ac(2,3) by simp_all
  have c: "0 \<le> c" "c \<le> 3" using ac as a by linarith+
  have "doe = 365 * a + q - c + r" unfolding doe_def q_s_c_a'_def by simp
  with as(1) have doe1: "doe = 1460 * q + (q + 365 * s - c + r)" by simp
  have x: "0 \<le> q + 365 * s - c + r" "q + 365 * s - c + r < 2 * 1460" using q4 a'4 as c r a by linarith+
  have D1: "doe div 1460 = q + (if q + 365 * s - c + r < 1460 then 0 else 1)"
    using div_two_cases[OF x] unfolding doe1 by simp
  have "doe = 365 * a + q - c + r" unfolding doe_def q_s_c_a'_def by simp
  with ac(1) q4 have doe2: "doe = 36524 * c + (365 * a' + a' div 4 + r)" by simp
  have D2: "doe div 36524 = c"
    unfolding doe2 using ac(2,3) a'4 r by (simp add: div_pos_pos_trivial)
  have bnd: "0 \<le> doe" "doe \<le> 146068" using doe1 x q4 a'4 c as a r by linarith+
  have D3: "doe div 146096 = 0" using bnd by (simp add: div_pos_pos_trivial)
  have "doe - doe div 1460 + doe div 36524 - doe div 146096 = 365 * a + (r - (if q + 365 * s - c + r < 1460 then 0 else 1))"
    using D1 D2 D3 doe1 as by simp
  moreover have "0 \<le> r - (if q + 365 * s - c + r < 1460 then 0 else 1)" "r - (if q + 365 * s - c + r < 1460 then 0 else 1) < 365"
    using r q4 a'4 c as by auto
  ultimately show ?thesis using bnd by simp
qed


lemma month_code:
  fixes m :: int
  assumes "1 \<le> m" "m \<le> 12"
  defines "mp0 \<equiv> (if 2 < m then m - 3 else m + 9)"
  defines "r \<equiv> (153 * mp0 + 2) div 5"
  shows "0 \<le> r \<and> r \<le> 337 \<and> (5 * r + 2) div 153 = mp0 \<and> (153 * mp0 + 2) div 5 = r \<and>
    (if mp0 < 10 then mp0 + 3 else mp0 - 9) = m \<and> (mp0 < 10 \<longleftrightarrow> 2 < m)"
proof -
  have "m = 1 \<or> m = 2 \<or> m = 3 \<or> m = 4 \<or> m = 5 \<or> m = 6 \<or> m = 7 \<or> m = 8 \<or> m = 9 \<or> m = 10 \<or>
      m = 11 \<or> m = 12" using assms(1,2) by presburger
  then show ?thesis unfolding r_def mp0_def by (elim disjE) simp_all
qed

lemma civil_from_days_first:
  assumes "1 \<le> m" "m \<le> 12"
  shows "civil_from_days (days_from_civil y m 1) = (y, m, 1)"
proof -
  define y0 where "y0 = (if m \<le> 2 then y - 1 else y)"
  define era where "era = y0 div 400"
  define a where "a = y0 - era * 400"
  define mp0 where "mp0 = (if 2 < m then m - 3 else m + 9)"
  define r where "r = (153 * mp0 + 2) div 5"
  have mc: "0 \<le> r" "r \<le> 337" "(5 * r + 2) div 153 = mp0" "(if mp0 < 10 then mp0 + 3 else mp0 - 9) = m"
    "mp0 < 10 \<longleftrightarrow> 2 < m"
    using month_code[OF assms] unfolding r_def mp0_def by simp_all
  have a: "0 \<le> a" "a \<le> 399" unfolding a_def era_def by (simp_all add: minus_div_mult_eq_mod)
  define doe where "doe = 365 * a + a div 4 - a div 100 + r"
  have all: "0 \<le> doe \<and> doe \<le> 146068 \<and> (doe - doe div 1460 + doe div 36524 - doe div 146096) div 365 = a"
    unfolding doe_def by (rule yoe_recover[OF a mc(1,2)])
  then have doe: "0 \<le> doe" "doe < 146097" by linarith+
  from all have yoe: "(doe - doe div 1460 + doe div 36524 - doe div 146096) div 365 = a"
    by (elim conjE)
  have days: "days_from_civil y m 1 = era * 146097 + doe - 719468"
    unfolding days_from_civil_def doe_def a_def era_def y0_def r_def mp0_def Let_def
    by (simp add: algebra_simps)
  have z: "(era * 146097 + doe) div 146097 = era" using doe by (simp add: div_pos_pos_trivial)
  have f1: "era * 146097 + doe - 719468 + 719468 = era * 146097 + doe" by simp
  have f3: "era * 146097 + doe - era * 146097 = doe" by simp
  have f5: "doe - (365 * a + a div 4 - a div 100) = r" unfolding doe_def by simp
  have f7: "r - (153 * mp0 + 2) div 5 + 1 = 1" unfolding r_def by simp
  have y: "a + era * 400 = y0" unfolding a_def by simp
  have "civil_from_days (days_from_civil y m 1) =
      (if m \<le> 2 then a + era * 400 + 1 else a + era * 400, m, 1)"
    unfolding civil_from_days_def days
    by (simp only: Let_def f1 z f3 yoe f5 mc(3) f7 mc(4))
  then show ?thesis using y unfolding y0_def by simp
qed


lemma doy_bound:
  fixes doe :: int
  assumes d: "0 \<le> doe" "doe \<le> 146096"
  defines "yoe \<equiv> (doe - doe div 1460 + doe div 36524 - doe div 146096) div 365"
  shows "0 \<le> doe - (365 * yoe + yoe div 4 - yoe div 100) \<and> doe - (365 * yoe + yoe div 4 - yoe div 100) \<le> 365"
proof (cases "doe = 146096")
  case True
  then show ?thesis unfolding yoe_def by simp
next
  case False
  with d have d': "doe \<le> 146095" by simp
  define c u where "c = doe div 36524" "u = doe mod 36524"
  have cu: "doe = 36524 * c + u" "0 \<le> u" "u \<le> 36523" unfolding c_u_def by simp_all
  have c: "0 \<le> c" "c \<le> 3" using cu d d' by linarith+
  define k v where "k = u div 1461" "v = u mod 1461"
  have kv: "u = 1461 * k + v" "0 \<le> v" "v \<le> 1460" unfolding k_v_def by simp_all
  have k: "0 \<le> k" "k \<le> 24" using kv cu by linarith+
  define e where "e = (if 24 * c + k + v < 1460 then 0 else 1 :: int)"
  have x: "0 \<le> 24 * c + k + v" "24 * c + k + v < 2 * 1460" using c k kv by linarith+
  have D1: "doe div 1460 = 25 * c + k + e"
  proof -
    have "doe = 1460 * (25 * c + k) + (24 * c + k + v)" using cu kv by simp
    then show ?thesis using div_two_cases[OF x] unfolding e_def by simp
  qed
  have D2: "doe div 36524 = c" unfolding c_u_def by simp
  have D3: "doe div 146096 = 0" using d d' by (simp add: div_pos_pos_trivial)
  have ve: "0 \<le> v - e" "v - e \<le> 1459" using kv c k unfolding e_def by auto
  define s where "s = (v - e) div 365"
  have s: "0 \<le> s" "s \<le> 3" "365 * s \<le> v - e" "v - e < 365 * s + 365"
    using ve unfolding s_def by linarith+
  have "doe - doe div 1460 + doe div 36524 - doe div 146096 = 365 * (100 * c + 4 * k) + (v - e)"
    using D1 D2 D3 cu kv by simp
  then have y: "yoe = 100 * c + 4 * k + s" unfolding yoe_def s_def by simp
  have y4: "yoe div 4 = 25 * c + k"
  proof -
    have "yoe = s + (25 * c + k) * 4" using y by simp
    then show ?thesis using s(1,2) by simp
  qed
  have y100: "yoe div 100 = c"
  proof -
    have "yoe = (4 * k + s) + c * 100" using y by simp
    moreover have "(4 * k + s) div 100 = 0" using k s by (simp add: div_pos_pos_trivial)
    ultimately show ?thesis by simp
  qed
  have "doe - (365 * yoe + yoe div 4 - yoe div 100) = (v - e - 365 * s) + e"
    using y y4 y100 cu kv by simp
  moreover have "0 \<le> e" "e \<le> 1" unfolding e_def by simp_all
  ultimately show ?thesis using s by linarith
qed


lemma civil_month_range:
  "1 \<le> fst (snd (civil_from_days z)) \<and> fst (snd (civil_from_days z)) \<le> 12"
proof -
  define era where "era = (z + 719468) div 146097"
  define doe where "doe = z + 719468 - era * 146097"
  define yoe where "yoe = (doe - doe div 1460 + doe div 36524 - doe div 146096) div 365"
  define doy where "doy = doe - (365 * yoe + yoe div 4 - yoe div 100)"
  define mp where "mp = (5 * doy + 2) div 153"
  have m: "fst (snd (civil_from_days z)) = (if mp < 10 then mp + 3 else mp - 9)"
    unfolding civil_from_days_def
    by (simp only: Let_def era_def[symmetric] doe_def[symmetric] yoe_def[symmetric] doy_def[symmetric]
        mp_def[symmetric] fst_conv snd_conv if_distrib[of "\<lambda>p. fst (snd p)"])
  have "0 \<le> doe" "doe \<le> 146096" unfolding doe_def era_def by (simp_all add: minus_div_mult_eq_mod)
  from doy_bound[OF this] have "0 \<le> doy" "doy \<le> 365" unfolding doy_def yoe_def by simp_all
  then have "0 \<le> mp" "mp \<le> 11" unfolding mp_def by (simp_all add: div_int_pos_iff zdiv_mono1)
  with m show ?thesis by auto
qed

subsection \<open>The shape of the month string\<close>

lemma digit_char_digit: "d < 10 \<Longrightarrow> is_digit (digit_char d)"
  unfolding is_digit_def digit_char_def by (rule nth_mem) simp

lemma dec_digits_digits: "list_all is_digit (dec_digits n)"
proof (induction n rule: dec_digits.induct)
  case (1 n)
  then show ?case by (subst dec_digits.simps) (simp add: digit_char_digit)
qed

lemma dec_digits_length: "n < 10 ^ Suc k \<Longrightarrow> length (dec_digits n) \<le> Suc k"
proof (induction n arbitrary: k rule: dec_digits.induct)
  case (1 n)
  show ?case
  proof (cases "n < 10")
    case True
    then show ?thesis by (subst dec_digits.simps) simp
  next
    case False
    then obtain j where k: "k = Suc j"
      using "1.prems" by (cases k) auto
    with "1.prems" have "n div 10 < 10 ^ Suc j" by (simp add: less_mult_imp_div_less mult.commute)
    with "1.IH"[OF False] False k show ?thesis by (subst dec_digits.simps) simp
  qed
qed

lemma pad_digits: "list_all is_digit (pad w n)"
proof -
  have "is_digit CHR ''0''" by (simp add: is_digit_def)
  with dec_digits_digits[of "nat n"] show ?thesis by (auto simp: pad_def Let_def list_all_iff)
qed

lemma pad_exact: "0 \<le> n \<Longrightarrow> n < 10 ^ w \<Longrightarrow> 0 < w \<Longrightarrow> length (pad w n) = w"
proof -
  assume "0 \<le> n" "n < 10 ^ w" "0 < w"
  then obtain k where "w = Suc k" "nat n < 10 ^ Suc k"
    by (cases w) (auto simp: nat_less_iff)
  then show ?thesis using dec_digits_length[of "nat n" k] by (simp add: pad_def Let_def)
qed

lemma toISOString_prefix:
  assumes "civil_from_days (t div msPerDay) = (y, m, d)" "0 \<le> y" "y \<le> 9999"
  shows "getCurrentMonthString t = pad 4 y @ CHR ''-'' # take 2 (pad 2 m)"
proof -
  have y: "length (pad 4 y) = 4" using assms(2,3) by (simp add: pad_exact)
  have "2 \<le> length (pad 2 m)" by (rule length_pad)
  with y assms show ?thesis
    by (simp add: getCurrentMonthString_def toISOString_def year_string_def Let_def)
qed

text \<open>C21: for every instant of the years 0 to 9999, the month of the row key has the form
  \<open>YYYY-MM\<close>: four digits, a hyphen and two digits.\<close>

theorem month_string_format:
  assumes "0 \<le> fst (civil_from_days (t div msPerDay))" "fst (civil_from_days (t div msPerDay)) \<le> 9999"
  shows "length (getCurrentMonthString t) = 7 \<and> list_all is_digit (take 4 (getCurrentMonthString t)) \<and>
    getCurrentMonthString t ! 4 = CHR ''-'' \<and> list_all is_digit (drop 5 (getCurrentMonthString t))"
proof -
  obtain y m d where c: "civil_from_days (t div msPerDay) = (y, m, d)" by (metis prod_cases3)
  with assms have y: "0 \<le> y" "y \<le> 9999" by simp_all
  have l: "length (pad 4 y) = 4" using y by (simp add: pad_exact)
  from pad_digits[of 4 y] pad_digits[of 2 m] have "list_all is_digit (take 2 (pad 2 m))"
    by (auto simp: list_all_iff dest: in_set_takeD)
  with toISOString_prefix[OF c y] l pad_digits[of 4 y] length_pad[of 2 m] show ?thesis
    by (simp add: nth_append)
qed

theorem month_string_format_witness:
  "0 \<le> fst (civil_from_days (1730419201000 div msPerDay)) \<and>
   fst (civil_from_days (1730419201000 div msPerDay)) \<le> 9999 \<and>
   getCurrentMonthString 1730419201000 ! 4 = CHR ''-''"
proof -
  have c: "civil_from_days (1730419201000 div msPerDay) = (2024, 11, 1)" by code_simp
  from c month_string_format[of 1730419201000] show ?thesis by simp
qed

lemma take_prefix3:
  "n \<le> length xs + Suc (length zs) \<Longrightarrow> take n (xs @ x # zs @ rest) = take n (xs @ x # zs)"
  by (simp add: take_append take_Cons')

lemma toISOString_month_prefix:
  assumes "civil_from_days (t div msPerDay) = (y, m, d)"
  shows "take 7 (toISOString t) = take 7 (year_string y @ CHR ''-'' # pad 2 m)"
proof -
  have "7 \<le> length (year_string y) + Suc (length (pad 2 m))"
    using length_year_string[of y] length_pad[of 2 m] by simp
  then show ?thesis using assms
    by (simp add: toISOString_def Let_def take_prefix3 del: take_append)
qed

subsection \<open>Printed numbers read back\<close>

lemma digit_value_char: "d < 10 \<Longrightarrow> digit_value (digit_char d) = d"
proof -
  assume "d < 10"
  then have "d = 0 \<or> d = 1 \<or> d = 2 \<or> d = 3 \<or> d = 4 \<or> d = 5 \<or> d = 6 \<or> d = 7 \<or> d = 8 \<or> d = 9"
    by presburger
  then show ?thesis by (elim disjE) (simp_all add: digit_value_def digit_char_def)
qed

lemma dec_value_snoc: "dec_value (xs @ [c]) = 10 * dec_value xs + digit_value c"
  by (simp add: dec_value_def)

lemma dec_value_zeros: "dec_value (replicate k CHR ''0'' @ s) = dec_value s"
proof -
  have "foldl (\<lambda>a c. 10 * a + digit_value c) 0 (replicate k CHR ''0'') = 0"
    by (induction k) (simp_all add: digit_value_def)
  then show ?thesis by (simp add: dec_value_def)
qed

lemma dec_value_dec_digits: "dec_value (dec_digits n) = n"
proof (induction n rule: dec_digits.induct)
  case (1 n)
  then show ?case
    by (subst dec_digits.simps) (simp add: dec_value_snoc digit_value_char dec_value_def)
qed

lemma dec_value_pad: "dec_value (pad w n) = nat n"
  by (simp add: pad_def Let_def dec_value_zeros dec_value_dec_digits)

lemma pad_inj: "pad w n = pad w n' \<Longrightarrow> 0 \<le> n \<Longrightarrow> 0 \<le> n' \<Longrightarrow> n = n'"
  by (metis dec_value_pad nat_eq_iff2)

lemma month_string_fields:
  assumes "utc_year_month t = (y, m)" "0 \<le> y" "y \<le> 9999"
  shows "getCurrentMonthString t = pad 4 y @ CHR ''-'' # pad 2 m \<and> 1 \<le> m \<and> m \<le> 12"
proof -
  obtain d where c: "civil_from_days (t div msPerDay) = (y, m, d)"
    using assms(1) by (auto simp: utc_year_month_def split: prod.splits)
  with civil_month_range[of "t div msPerDay"] have m: "1 \<le> m" "m \<le> 12" by simp_all
  then have "length (pad 2 m) = 2" by (simp add: pad_exact)
  with toISOString_prefix[OF c assms(2,3)] m show ?thesis by simp
qed

lemma month_string_eq:
  assumes "0 \<le> fst (utc_year_month t)" "fst (utc_year_month t) \<le> 9999"
    and "0 \<le> fst (utc_year_month t')" "fst (utc_year_month t') \<le> 9999"
  shows "getCurrentMonthString t = getCurrentMonthString t' \<longleftrightarrow> utc_year_month t = utc_year_month t'"
proof -
  obtain y m y' m' where ym: "utc_year_month t = (y, m)" "utc_year_month t' = (y', m')"
    by fastforce
  with assms have y: "0 \<le> y" "y \<le> 9999" "0 \<le> y'" "y' \<le> 9999" by simp_all
  note f = month_string_fields[OF ym(1) y(1,2)] month_string_fields[OF ym(2) y(3,4)]
  have l: "length (pad 4 y) = length (pad 4 y')" using y by (simp add: pad_exact)
  have "getCurrentMonthString t = getCurrentMonthString t' \<longleftrightarrow> pad 4 y = pad 4 y' \<and> pad 2 m = pad 2 m'"
    using f l by (simp add: append_eq_append_conv)
  also have "\<dots> \<longleftrightarrow> y = y' \<and> m = m'" using y f by (auto dest: pad_inj)
  finally show ?thesis using ym by simp
qed

subsection \<open>The month of the timespan\<close>

text \<open>When the first of the local month, converted to UTC, still falls on that first day,
  the timespan's text begins with the month of the local time.\<close>

lemma timespan_month_prefix:
  assumes c: "civil_from_days ((t + off) div msPerDay) = (y, m, d)"
    and s: "local_month_start off t div msPerDay = days_from_civil y m 1"
  shows "take 7 (getCurrentMonthTimespan off t) = getCurrentMonthString (t + off)"
proof -
  from civil_month_range[of "(t + off) div msPerDay"] c have m: "1 \<le> m" "m \<le> 12" by simp_all
  have "civil_from_days (local_month_start off t div msPerDay) = (y, m, 1)"
    unfolding s by (rule civil_from_days_first[OF m])
  then have "take 7 (toISOString (local_month_start off t)) = take 7 (toISOString (t + off))"
    using toISOString_month_prefix[OF c] toISOString_month_prefix by metis
  moreover have "7 \<le> length (toISOString (local_month_start off t))" by (rule length_toISOString)
  ultimately show ?thesis
    by (simp add: getCurrentMonthTimespan_def getCurrentMonthString_def)
qed

lemma local_month_start_west:
  assumes "civil_from_days ((t + off) div msPerDay) = (y, m, d)" "- msPerDay < off" "off \<le> 0"
  shows "local_month_start off t div msPerDay = days_from_civil y m 1"
proof -
  have "local_month_start off t = - off + days_from_civil y m 1 * msPerDay"
    using assms(1) by (simp add: local_month_start_def)
  moreover have "(- off) div msPerDay = 0" using assms(2,3) by (simp add: div_pos_pos_trivial)
  ultimately show ?thesis by (simp add: msPerDay_def)
qed

text \<open>C18: the timespan starts at the first of the month in the host's local time, while
  the month string is the UTC month. On every host at or behind UTC (by less than a day),
  at every instant, the timespan's month is the month of the local time \<open>t + off\<close>, not
  the UTC month of \<open>t\<close> that the row key names: the two differ from UTC midnight on the
  first of a month until local midnight, and for those hours the previous month's usage
  is filed under the new month's row.\<close>

theorem local_month_mismatch:
  assumes "- msPerDay < off" "off \<le> 0"
  shows "take 7 (getCurrentMonthTimespan off t) = getCurrentMonthString (t + off)"
proof -
  obtain y m d where c: "civil_from_days ((t + off) div msPerDay) = (y, m, d)" by (metis prod_cases3)
  from timespan_month_prefix[OF c local_month_start_west[OF c assms]] show ?thesis .
qed

theorem local_month_mismatch_witness:
  "- msPerDay < -18000000 \<and> (-18000000::int) \<le> 0 \<and>
   take 7 (getCurrentMonthTimespan (-18000000) 1730426400000) = ''2024-10'' \<and>
   getCurrentMonthString 1730426400000 = ''2024-11''"
proof -
  have h: "- msPerDay < -18000000" "(-18000000::int) \<le> 0" by (simp_all add: msPerDay_def)
  have l: "getCurrentMonthString (1730426400000 + -18000000) = ''2024-10''" by code_simp
  have u: "getCurrentMonthString 1730426400000 = ''2024-11''" by code_simp
  show ?thesis using local_month_mismatch[OF h, of 1730426400000] h l u by simp
qed


end
