(* ===== verification/Trigger.thy ===== *)
theory Trigger
  imports Calls Clock
begin

text \<open>
  The invocation, \<open>httpTrigger\<close> (\<open>httpTrigger.ts\<close>, lines 129--174). It acquires
  a token, queries the metric API for the current month (the Usage Source, external:
  its answer is an input here), reads \<open>response.data.value[0].timeseries\<close>, and maps
  every series to an \<open>async\<close> callback that names the deployment, sums its samples
  with \<open>reduce\<close> and starts \<open>evaluateTokenUsageForAlert\<close>. Each callback runs
  synchronously up to the first \<open>await\<close> of its reconciliation; a callback that throws
  first (a series without metadata) yields a rejected promise instead. The reconciliations
  then run interleaved as in the theory \<open>Concurrency\<close>. \<open>Promise.all\<close> rejects at
  the first rejected callback and resolves once every reconciliation has returned;
  reconciliations never reject, since their body catches every error. The
  \<open>catch\<close> of lines 167--173 turns an error into a response from
  \<open>error.response?.status || 500\<close> and \<open>error.response?.data || error.message\<close>.

  A JavaScript error is modelled by what the \<open>catch\<close> reads of it: the HTTP response
  it carries, if any (status and body), and its message. A metric sample's
  \<open>total\<close> may be absent, and \<open>sum + undefined\<close> is \<open>NaN\<close>.
\<close>

datatype js_error = JsError (err_response: "(nat \<times> string) option") (err_message: string)

datatype 'a call = Ok 'a | Err js_error

record metric_point =
  total :: "int option"

record series =
  metadatavalues :: "string list"
  points :: "metric_point list"

datatype response = Response (status: nat) (body: string)

definition add_total :: "jsnum \<Rightarrow> metric_point \<Rightarrow> jsnum" where
  "add_total acc d = (case total d of None \<Rightarrow> NaN | Some x \<Rightarrow> js_add acc (Num x))"

definition sum_tokens :: "metric_point list \<Rightarrow> jsnum" where
  "sum_tokens data = foldl add_total (Num 0) data"

text \<open>The \<open>TypeError\<close> that Node throws on a property read of \<open>undefined\<close>; its
  message quotes the property name: \<open>(reading 'value')\<close>.\<close>

definition quoted :: "string \<Rightarrow> string" where
  "quoted s = CHR 0x27 # s @ [CHR 0x27]"

definition undefined_read :: "string \<Rightarrow> js_error" where
  "undefined_read prop =
     JsError None (''Cannot read properties of undefined (reading '' @ quoted prop @ '')'')"

text \<open>The synchronous part of one callback of line 152: lines 153--156 and the call of
  line 158, which starts a reconciliation at its first \<open>await\<close>.\<close>

definition deployment_callback :: "string \<Rightarrow> series \<Rightarrow> js_error + task" where
  "deployment_callback month deployment =
     (case metadatavalues deployment of
        [] \<Rightarrow> Inl (undefined_read ''value'')
      | deploymentName # _ \<Rightarrow> Inr (start_task deploymentName (sum_tokens (points deployment)) month))"

text \<open>Lines 133--159: the token, the metric query, \<open>value[0].timeseries\<close> and the
  callbacks, or the error that reaches the \<open>catch\<close> first.\<close>

definition start_invocation ::
  "string call \<Rightarrow> series list list call \<Rightarrow> string \<Rightarrow> js_error + (js_error + task) list" where
  "start_invocation token fetched month =
     (case token of
        Err e \<Rightarrow> Inl e
      | Ok _ \<Rightarrow>
          (case fetched of
             Err e \<Rightarrow> Inl e
           | Ok value \<Rightarrow>
               (case value of
                  [] \<Rightarrow> Inl (undefined_read ''timeseries'')
                | timeseries # _ \<Rightarrow> Inr (map (deployment_callback month) timeseries))))"

text \<open>The metric query of lines 140--146: the URL with the resource and the timespan,
  and the bearer token of line 135.\<close>

record metric_request =
  req_url :: string
  req_authorization :: string

definition apiUrl :: "string \<Rightarrow> string \<Rightarrow> string" where
  "apiUrl resourceUri timespan =
     ''https://management.azure.com/'' @ resourceUri @
     ''/providers/Microsoft.Insights/metrics?api-version=2023-10-01&metricnames=TokenTransaction'' @
     ''&$filter=ModelDeploymentName eq '' @ [CHR 0x27, CHR ''*'', CHR 0x27] @
     ''&interval=P1D&timespan='' @ timespan"

definition axios_request :: "string \<Rightarrow> string \<Rightarrow> string \<Rightarrow> metric_request" where
  "axios_request resourceUri accessToken timespan =
     \<lparr>req_url = apiUrl resourceUri timespan, req_authorization = ''Bearer '' @ accessToken\<rparr>"

text \<open>Lines 133--149 with the clock. The timespan is read at line 139, before the
  metric query, from the reading \<open>t1\<close>; the month at line 149, after the query has
  returned, from a later reading \<open>t2\<close>; \<open>off\<close> is the host's offset from UTC.
  \<open>token\<close> is the result of \<open>credential.getToken\<close> and \<open>query\<close> the metric API's
  answer to a request; the query is made only once a token is there.\<close>

definition httpTrigger_start ::
  "int \<Rightarrow> time_value \<Rightarrow> time_value \<Rightarrow> string \<Rightarrow> string call \<Rightarrow>
     (metric_request \<Rightarrow> series list list call) \<Rightarrow> js_error + (js_error + task) list" where
  "httpTrigger_start off t1 t2 resourceUri token query =
     (case token of
        Err e \<Rightarrow> Inl e
      | Ok accessToken \<Rightarrow>
          start_invocation token
            (query (axios_request resourceUri accessToken (getCurrentMonthTimespan off t1)))
            (getCurrentMonthString t2))"

definition started :: "(js_error + task) list \<Rightarrow> task list" where
  "started cbs = [t. Inr t \<leftarrow> cbs]"

fun first_rejection :: "(js_error + task) list \<Rightarrow> js_error option" where
  "first_rejection [] = None"
| "first_rejection (Inl e # cbs) = Some e"
| "first_rejection (Inr _ # cbs) = first_rejection cbs"

text \<open>Lines 167--173.\<close>

definition error_response :: "js_error \<Rightarrow> response" where
  "error_response e =
     (case err_response e of
        None \<Rightarrow> Response 500 (err_message e)
      | Some (s, d) \<Rightarrow> Response (if s = 0 then 500 else s) (if d = [] then err_message e else d))"

text \<open>The response of the invocation once its reconciliations are in the states
  \<open>ts\<close> (lines 161--173): \<open>None\<close> while \<open>Promise.all\<close> is still pending.\<close>

definition invocation_response :: "js_error + (js_error + task) list \<Rightarrow> task list \<Rightarrow> response option" where
  "invocation_response st ts =
     (case st of
        Inl e \<Rightarrow> Some (error_response e)
      | Inr cbs \<Rightarrow>
          (case first_rejection cbs of
             Some e \<Rightarrow> Some (error_response e)
           | None \<Rightarrow>
               (if list_all (\<lambda>t. terminal (tpc t)) ts then Some (Response 200 ''Success'')
                else None)))"

text \<open>Every error that ends a reconciliation has been logged with its deployment name
  (the \<open>console.error\<close> of line 103).\<close>

definition failures_logged :: "conf \<Rightarrow> bool" where
  "failures_logged c \<longleftrightarrow>
     list_all (\<lambda>t. tpc t = Failed \<longrightarrow> (\<exists>f. ErrorProcessing (tdeploymentName t) f \<in> set (logs (fst c)))) (snd c)"

text \<open>Sample answers of the metric API used by the witnesses.\<close>

definition demo_series :: "string list \<Rightarrow> int option list \<Rightarrow> series" where
  "demo_series names totals = \<lparr>metadatavalues = names, points = map (\<lambda>x. \<lparr>total = x\<rparr>) totals\<rparr>"

definition isolation_series :: "series list" where
  "isolation_series = [demo_series [''gpt4dev''] [Some 900, Some 600], demo_series [''gpt35''] [Some 700]]"

definition isolation_schedule :: "(nat \<times> outcome) list" where
  "isolation_schedule = [(0, Fault (Some 503)), (1, Nominal), (1, Nominal)]"

definition rejection_series :: "series list" where
  "rejection_series = [demo_series [''gpt4dev''] [Some 1500], demo_series [] [Some 10]]"

definition october_usage :: "metric_request \<Rightarrow> series list list call" where
  "october_usage req =
     (if req_url req = apiUrl ''res'' ''2024-10-01T00:00:00.000Z/2024-10-31T23:59:59.000Z''
      then Ok [[demo_series [''gpt4dev''] [Some 900, Some 600]]] else Ok [[]])"

subsection \<open>Sums of samples\<close>

lemma add_total_None [simp]: "total d = None \<Longrightarrow> add_total a d = NaN"
  by (simp add: add_total_def)

lemma add_total_Some [simp]: "total d = Some x \<Longrightarrow> add_total a d = js_add a (Num x)"
  by (simp add: add_total_def)

lemma foldl_add_total_NaN [simp]: "foldl add_total NaN ds = NaN"
  by (induction ds) (simp_all add: add_total_def split: option.splits)

lemma foldl_add_total:
  "foldl add_total (Num a) ds =
     (case those (map total ds) of None \<Rightarrow> NaN | Some xs \<Rightarrow> Num (a + sum_list xs))"
proof (induction ds arbitrary: a)
  case Nil
  then show ?case by simp
next
  case (Cons d ds)
  then show ?case
    by (cases "total d") (auto simp: ac_simps split: option.splits)
qed


lemma foldl_add_total_missing: "\<exists>p \<in> set ps. total p = None \<Longrightarrow> foldl add_total a ps = NaN"
  by (induction ps arbitrary: a) auto

lemma sum_tokens_missing: "\<exists>p \<in> set ps. total p = None \<Longrightarrow> sum_tokens ps = NaN"
  unfolding sum_tokens_def by (rule foldl_add_total_missing)

text \<open>C14: the \<open>reduce\<close> of line 156 is the sum of the samples' totals when every
  sample has one, and \<open>NaN\<close> as soon as one sample lacks its total.\<close>

theorem sum_tokens_reduce:
  "sum_tokens data = (case those (map total data) of None \<Rightarrow> NaN | Some xs \<Rightarrow> Num (sum_list xs))"
  unfolding sum_tokens_def foldl_add_total by (simp split: option.split)

subsection \<open>The response of the invocation\<close>

lemma task_step_logs: "\<exists>l. logs (fst (task_step oc w t)) = logs w @ l"
  by (cases "tpc t")
    (auto simp: task_step_def step_simps sendMail_def split: sum.splits if_splits outcome.splits)

lemma task_step_failed_logged:
  "tpc t \<noteq> Failed \<Longrightarrow> tpc (snd (task_step oc w t)) = Failed \<Longrightarrow>
     \<exists>f. ErrorProcessing (tdeploymentName t) f \<in> set (logs (fst (task_step oc w t)))"
  by (cases "tpc t")
    (auto simp: task_step_def step_simps sendMail_def split: sum.splits if_splits outcome.splits)

lemma failures_logged_step:
  assumes "conc_step c l c'" "failures_logged c"
  shows "failures_logged c'"
  using assms(1)
proof (cases rule: conc_step.cases)
  case (run i ts oc w w' t')
  from run(6) have "logs w' = logs (fst (task_step oc w (ts ! i)))" by simp
  with task_step_logs[of oc w "ts ! i"] obtain more where more: "logs w' = logs w @ more"
    by auto
  have new: "\<exists>f. ErrorProcessing (tdeploymentName (ts ! i)) f \<in> set (logs w')" if "tpc t' = Failed"
  proof -
    from run(5) have "tpc (ts ! i) \<noteq> Failed" by auto
    with task_step_failed_logged[of "ts ! i" oc w] run(6) that show ?thesis by simp
  qed
  have name: "tdeploymentName t' = tdeploymentName (ts ! i)"
    using task_step_fields(1)[of oc w "ts ! i"] run(6) by simp
  from assms(2) run(1) have old: "\<forall>t \<in> set ts. tpc t = Failed \<longrightarrow>
      (\<exists>f. ErrorProcessing (tdeploymentName t) f \<in> set (logs w))"
    by (simp add: failures_logged_def list_all_iff)
  show ?thesis
    unfolding run(3) failures_logged_def list_all_iff
  proof (simp, intro ballI impI)
    fix t assume t: "t \<in> set (ts[i := t'])" and f: "tpc t = Failed"
    show "\<exists>f. ErrorProcessing (tdeploymentName t) f \<in> set (logs w')"
    proof (cases "t = t'")
      case True
      with new name f show ?thesis by simp
    next
      case False
      with t have "t \<in> set ts" by (meson set_update_subset_insert insertE subsetD)
      with old f more show ?thesis by auto
    qed
  qed
qed

lemma failures_logged_steps:
  "conc_steps c ls c' \<Longrightarrow> failures_logged c \<Longrightarrow> failures_logged c'"
  by (induction rule: conc_steps.induct) (auto intro: failures_logged_step)

lemma started_at_get:
  "start_invocation token fetched month = Inr cbs \<Longrightarrow> list_all (\<lambda>t. tpc t = AtGet) (started cbs)"
  by (auto simp: start_invocation_def started_def deployment_callback_def start_task_def list_all_iff
      split: call.splits list.splits)

lemma failures_logged_start: "list_all (\<lambda>t. tpc t = AtGet) ts \<Longrightarrow> failures_logged (w, ts)"
  by (auto simp: failures_logged_def list_all_iff)

lemmas demo_invocation_simps = start_invocation_def deployment_callback_def demo_series_def
  sum_tokens_def add_total_def started_def start_task_def rowKey_of_def

text \<open>C12: when the metric query succeeds and every series names its deployment, the
  invocation answers 200 \<open>Success\<close> once all reconciliations have returned, however
  they end (any interleaving, any store or mail failures), and every reconciliation that
  failed has logged its error with its deployment name (section 6: failures are isolated
  per deployment and none is silently dropped).\<close>

theorem invocation_isolates_failures:
  assumes st: "start_invocation token fetched month = Inr cbs" and ok: "first_rejection cbs = None"
    and run: "conc_steps (w, started cbs) ls (w', ts')" and fin: "finished (w', ts')"
  shows "invocation_response (Inr cbs) ts' = Some (Response 200 ''Success'') \<and>
    list_all (\<lambda>t. tpc t = Failed \<longrightarrow> (\<exists>f. ErrorProcessing (tdeploymentName t) f \<in> set (logs w'))) ts'"
proof -
  from failures_logged_steps[OF run failures_logged_start[OF started_at_get[OF st]]]
  have "failures_logged (w', ts')" .
  with ok fin show ?thesis
    by (simp add: invocation_response_def finished_def failures_logged_def)
qed

theorem invocation_isolates_failures_witness:
  "let cbs = map (deployment_callback ''2024-10'') isolation_series;
       c = run_schedule isolation_schedule (demo_world Map.empty, started cbs)
   in start_invocation (Ok ''tok'') (Ok [isolation_series]) ''2024-10'' = Inr cbs \<and>
      first_rejection cbs = None \<and>
      conc_steps (demo_world Map.empty, started cbs) isolation_schedule (fst c, snd c) \<and>
      finished (fst c, snd c) \<and> list_all (\<lambda>t. tpc t = Failed) [snd c ! 0] \<and>
      invocation_response (Inr cbs) (snd c) = Some (Response 200 ''Success'') \<and>
      list_all (\<lambda>t. tpc t = Failed \<longrightarrow> (\<exists>f. ErrorProcessing (tdeploymentName t) f \<in> set (logs (fst c)))) (snd c)"
proof -
  let ?cbs = "map (deployment_callback ''2024-10'') isolation_series"
  let ?c = "run_schedule isolation_schedule (demo_world Map.empty, started ?cbs)"
  have h: "start_invocation (Ok ''tok'') (Ok [isolation_series]) ''2024-10'' = Inr ?cbs"
    "first_rejection ?cbs = None"
    "conc_steps (demo_world Map.empty, started ?cbs) isolation_schedule (fst ?c, snd ?c)"
    "finished (fst ?c, snd ?c)" "list_all (\<lambda>t. tpc t = Failed) [snd ?c ! 0]"
    by (simp_all add: start_invocation_def isolation_series_def isolation_schedule_def
        demo_invocation_simps conc_steps_iff_schedule finished_def sched_simps)
  show ?thesis using invocation_isolates_failures[OF h(1-4)] h by simp
qed

lemma callbacks_reject_undefined:
  "first_rejection (map (deployment_callback month) ds) = Some e \<Longrightarrow> e = undefined_read ''value''"
  by (induction ds) (auto simp: deployment_callback_def split: list.splits)

text \<open>C13: a series without metadata makes its callback throw, and \<open>Promise.all\<close>
  rejects at once: the invocation answers 500 with the \<open>TypeError\<close> message while the
  reconciliations of the other deployments have started and are still running. The
  Usage Source did not fail, yet the answer is an error, and it does not wait for the
  per-deployment work (section 6 makes only a Usage Source failure fatal).\<close>

theorem invocation_rejects_early:
  assumes st: "start_invocation token fetched month = Inr cbs"
    and rej: "first_rejection cbs = Some e" and some: "started cbs \<noteq> []"
  shows "invocation_response (Inr cbs) (started cbs) =
      Some (Response 500 (''Cannot read properties of undefined (reading '' @ CHR 0x27 # ''value'' @ CHR 0x27 # '')'')) \<and>
    \<not> finished (w, started cbs)"
proof -
  from st rej have "e = undefined_read ''value''"
    by (auto simp: start_invocation_def split: call.splits list.splits dest: callbacks_reject_undefined)
  moreover from started_at_get[OF st] some have "\<not> finished (w, started cbs)"
    by (cases "started cbs") (auto simp: finished_def)
  ultimately show ?thesis using rej
    by (simp add: invocation_response_def error_response_def undefined_read_def quoted_def)
qed

theorem invocation_rejects_early_witness:
  "let cbs = map (deployment_callback ''2024-10'') rejection_series
   in start_invocation (Ok ''tok'') (Ok [rejection_series]) ''2024-10'' = Inr cbs \<and>
      first_rejection cbs = Some (undefined_read ''value'') \<and> started cbs \<noteq> [] \<and>
      invocation_response (Inr cbs) (started cbs) =
        Some (Response 500 (''Cannot read properties of undefined (reading '' @ CHR 0x27 # ''value'' @ CHR 0x27 # '')'')) \<and>
      \<not> finished (demo_world Map.empty, started cbs)"
proof -
  let ?cbs = "map (deployment_callback ''2024-10'') rejection_series"
  have h: "start_invocation (Ok ''tok'') (Ok [rejection_series]) ''2024-10'' = Inr ?cbs"
    "first_rejection ?cbs = Some (undefined_read ''value'')" "started ?cbs \<noteq> []"
    by (simp_all add: rejection_series_def demo_invocation_simps)
  show ?thesis using invocation_rejects_early[OF h, of "demo_world Map.empty"] h by simp
qed

text \<open>C20: every invocation whose metric query succeeded is answered: some
  interleaving of its reconciliations reaches the answer, and every interleaving, whatever
  the scheduler and the call outcomes, stops after at most four steps per deployment, at a
  configuration where the answer is given.\<close>

theorem invocation_responds:
  assumes st: "start_invocation token fetched month = Inr cbs"
  shows "(\<exists>ls c. conc_steps (w, started cbs) ls c \<and> invocation_response (Inr cbs) (snd c) \<noteq> None) \<and>
    (\<forall>ls c. conc_steps (w, started cbs) ls c \<longrightarrow> length ls \<le> 4 * length (started cbs) \<and>
       ((\<forall>l c'. \<not> conc_step c l c') \<longrightarrow> invocation_response (Inr cbs) (snd c) \<noteq> None))"
proof -
  have fin: "invocation_response (Inr cbs) (snd c) \<noteq> None" if "finished c" for c
    using that by (simp add: invocation_response_def finished_def split: option.splits)
  have start: "total_calls (w, started cbs) = 4 * length (started cbs)"
    by (rule total_calls_start[OF started_at_get[OF st]])
  from reach_finished[of "(w, started cbs)"] fin have "\<exists>ls c. conc_steps (w, started cbs) ls c \<and>
      invocation_response (Inr cbs) (snd c) \<noteq> None" by blast
  moreover have "length ls \<le> 4 * length (started cbs) \<and>
      ((\<forall>l c'. \<not> conc_step c l c') \<longrightarrow> invocation_response (Inr cbs) (snd c) \<noteq> None)"
    if run: "conc_steps (w, started cbs) ls c" for ls c
  proof
    show "length ls \<le> 4 * length (started cbs)" using conc_steps_calls[OF run] start by simp
    show "(\<forall>l c'. \<not> conc_step c l c') \<longrightarrow> invocation_response (Inr cbs) (snd c) \<noteq> None"
      using progress[of c] fin[of c] by blast
  qed
  ultimately show ?thesis by blast
qed

theorem invocation_responds_witness:
  "start_invocation (Ok ''tok'') (Ok [isolation_series]) ''2024-10'' =
     Inr (map (deployment_callback ''2024-10'') isolation_series) \<and>
   length isolation_schedule \<le> 4 * length (started (map (deployment_callback ''2024-10'') isolation_series)) \<and>
   (\<exists>ls c. conc_steps (demo_world Map.empty, started (map (deployment_callback ''2024-10'') isolation_series)) ls c \<and>
      invocation_response (Inr (map (deployment_callback ''2024-10'') isolation_series)) (snd c) \<noteq> None)"
proof -
  let ?cbs = "map (deployment_callback ''2024-10'') isolation_series"
  have st: "start_invocation (Ok ''tok'') (Ok [isolation_series]) ''2024-10'' = Inr ?cbs"
    by (simp add: start_invocation_def)
  have run: "conc_steps (demo_world Map.empty, started ?cbs) isolation_schedule
      (run_schedule isolation_schedule (demo_world Map.empty, started ?cbs))"
    by (simp add: isolation_series_def isolation_schedule_def demo_invocation_simps
        conc_steps_iff_schedule sched_simps)
  from invocation_responds[OF st, of "demo_world Map.empty"] run st show ?thesis by blast
qed

subsection \<open>Row keys and the clock\<close>

lemma append_same_length_eq:
  "length ys = length ys' \<Longrightarrow> xs @ ys = xs' @ ys' \<longleftrightarrow> xs = xs' \<and> ys = ys'"
  by (auto simp: append_eq_append_conv)

lemma started_keys:
  "start_invocation token fetched month = Inr cbs \<Longrightarrow>
     list_all (\<lambda>t. trowKey t = rowKey_of (tdeploymentName t) month) (started cbs)"
  by (auto simp: start_invocation_def started_def deployment_callback_def start_task_def list_all_iff
      split: call.splits list.splits)

text \<open>C16: the row key names the deployment and the month uniquely (section 3): for
  instants in the years 0 to 9999, two reconciliations share a row key exactly when they are
  for the same deployment name and the same UTC year and month, even when names contain
  \<open>-\<close>. The month string is \<open>YYYY-MM\<close> with both fields zero-padded to a fixed
  width, and reading the digits back gives the year and the month.\<close>

theorem rowKey_unique:
  assumes "0 \<le> fst (utc_year_month t)" "fst (utc_year_month t) \<le> 9999"
    and "0 \<le> fst (utc_year_month t')" "fst (utc_year_month t') \<le> 9999"
  shows "rowKey_of n (getCurrentMonthString t) = rowKey_of n' (getCurrentMonthString t') \<longleftrightarrow>
     n = n' \<and> utc_year_month t = utc_year_month t'"
proof -
  have "rowKey_of n (getCurrentMonthString t) = rowKey_of n' (getCurrentMonthString t') \<longleftrightarrow>
      n = n' \<and> getCurrentMonthString t = getCurrentMonthString t'"
    unfolding rowKey_of_def by (subst append_same_length_eq) auto
  with month_string_eq[OF assms] show ?thesis by simp
qed

theorem rowKey_unique_witness:
  "0 \<le> fst (utc_year_month 1730419199000) \<and> fst (utc_year_month 1730419199000) \<le> 9999 \<and>
   0 \<le> fst (utc_year_month 1730419201000) \<and> fst (utc_year_month 1730419201000) \<le> 9999 \<and>
   rowKey_of ''gpt4dev'' (getCurrentMonthString 1730419199000) \<noteq>
     rowKey_of ''gpt4dev'' (getCurrentMonthString 1730419201000)"
proof -
  have a: "utc_year_month 1730419199000 = (2024, 10)" by code_simp
  have b: "utc_year_month 1730419201000 = (2024, 11)" by code_simp
  have h: "0 \<le> fst (utc_year_month 1730419199000)" "fst (utc_year_month 1730419199000) \<le> 9999"
    "0 \<le> fst (utc_year_month 1730419201000)" "fst (utc_year_month 1730419201000) \<le> 9999"
    by (simp_all add: a b)
  show ?thesis using rowKey_unique[OF h, of "''gpt4dev''" "''gpt4dev''"] h a b by simp
qed

text \<open>C17: the timespan and the month are read from two clock readings (lines 139 and
  149), one before and one after the metric query. On a UTC host, whenever the two readings
  fall in different months, as when the query starts before midnight at the end of a
  month and returns after it, the samples summed are the API's answer for a timespan
  starting in the first reading's month, and every reconciliation files them under the row
  of the second reading's month: the previous month's usage is stored and alerted as the
  new month's.\<close>

theorem month_rollover_misfiles_usage:
  assumes st: "httpTrigger_start 0 t1 t2 r (Ok tok) query = Inr cbs"
    and diff: "getCurrentMonthString t1 \<noteq> getCurrentMonthString t2"
  shows "take 7 (getCurrentMonthTimespan 0 t1) \<noteq> getCurrentMonthString t2 \<and>
    (\<exists>ts vs. query (axios_request r tok (getCurrentMonthTimespan 0 t1)) = Ok (ts # vs) \<and>
       cbs = map (deployment_callback (getCurrentMonthString t2)) ts) \<and>
    list_all (\<lambda>t. trowKey t = rowKey_of (tdeploymentName t) (getCurrentMonthString t2)) (started cbs)"
proof -
  from st have s: "start_invocation (Ok tok) (query (axios_request r tok (getCurrentMonthTimespan 0 t1)))
      (getCurrentMonthString t2) = Inr cbs" by (simp add: httpTrigger_start_def)
  obtain y m d where c: "civil_from_days ((t1 + 0) div msPerDay) = (y, m, d)" by (metis prod_cases3)
  have utc: "- msPerDay < (0::int)" "(0::int) \<le> 0" by (simp_all add: msPerDay_def)
  from timespan_month_prefix[OF c local_month_start_west[OF c utc]]
  have "take 7 (getCurrentMonthTimespan 0 t1) = getCurrentMonthString t1" by simp
  moreover from s have "\<exists>ts vs. query (axios_request r tok (getCurrentMonthTimespan 0 t1)) = Ok (ts # vs) \<and>
       cbs = map (deployment_callback (getCurrentMonthString t2)) ts"
    by (auto simp: start_invocation_def split: call.splits list.splits)
  ultimately show ?thesis using diff started_keys[OF s] by simp
qed

theorem month_rollover_misfiles_usage_witness:
  "httpTrigger_start 0 1730419199000 1730419201000 ''res'' (Ok ''tok'') october_usage =
     Inr [Inr (start_task ''gpt4dev'' (Num 1500) ''2024-11'')] \<and>
   getCurrentMonthString 1730419199000 \<noteq> getCurrentMonthString 1730419201000 \<and>
   list_all (\<lambda>t. trowKey t = rowKey_of (tdeploymentName t) ''2024-11'')
     (started [Inr (start_task ''gpt4dev'' (Num 1500) ''2024-11'')])"
proof -
  have span: "getCurrentMonthTimespan 0 1730419199000 = ''2024-10-01T00:00:00.000Z/2024-10-31T23:59:59.000Z''"
    by code_simp
  have m1: "getCurrentMonthString 1730419199000 = ''2024-10''" by code_simp
  have m2: "getCurrentMonthString 1730419201000 = ''2024-11''" by code_simp
  have h: "httpTrigger_start 0 1730419199000 1730419201000 ''res'' (Ok ''tok'') october_usage =
      Inr [Inr (start_task ''gpt4dev'' (Num 1500) ''2024-11'')]"
    "getCurrentMonthString 1730419199000 \<noteq> getCurrentMonthString 1730419201000"
    by (simp_all add: httpTrigger_start_def axios_request_def span m1 m2 october_usage_def
        start_invocation_def deployment_callback_def demo_series_def sum_tokens_def add_total_def)
  show ?thesis using month_rollover_misfiles_usage[OF h] h m2 by simp
qed

end
