(* ===== verification/Spec2Isabelle.thy ===== *)
theory Spec2Isabelle
  imports Trigger
begin

text \<open>
  \<^bold>\<open>A verification development of the token-usage alert function.\<close>

  The program is one Azure Function, \<open>src/src/functions/httpTrigger.ts\<close>. On each
  invocation \<open>httpTrigger\<close> (lines 129--174) takes a token, asks the metric API for the
  current month's per-deployment token counts, sums each deployment's samples and starts
  one reconciliation \<open>evaluateTokenUsageForAlert\<close> (lines 54--105) per deployment, all
  running concurrently. A reconciliation reads or creates the deployment's record of the
  month in Azure Table storage (row key \<open>deployment-YYYY-MM\<close>), asks the policy
  \<open>shouldSendAlert\<close> (lines 47--52, threshold 1000) whether to alert, sends the alert
  with \<open>sendMail\<close> (lines 107--127) and writes back the alert flag and the highest total.

  \<^bold>\<open>Theories.\<close>
  \<^item> \<open>Prelude\<close>: JavaScript numbers as \<open>jsnum\<close> (an integer or \<open>NaN\<close>, with
    \<open>+\<close> and \<open>>\<close> as JavaScript computes them), number-to-string conversion, the
    \<open>outcome\<close> of one external call (\<open>Nominal\<close>, or \<open>Fault\<close> with an optional
    HTTP status), and the shared \<open>named_theorems\<close> \<open>store_ops\<close>, \<open>step_simps\<close>.
  \<^item> \<open>Store\<close>: the table entity as a record, the table as a map from
    (partition key, row key) to entity, and \<open>getEntity\<close>, \<open>createEntity\<close>,
    \<open>updateEntity\<close> as the Azure SDK documents them (404 for a missing row, 409 for
    an existing one; the SDK is not under \<open>src/\<close>); \<open>wf_table\<close> says every row is
    stored under its own key.
  \<^item> \<open>Policy\<close>: \<open>THRESHOLD\<close> and \<open>shouldSendAlert\<close>.
  \<^item> \<open>Mail\<close>: the message of lines 108--122 and \<open>sendMail\<close>, which appends it to
    an outbox when delivery succeeds.
  \<^item> \<open>Reconcile\<close>: \<open>evaluateTokenUsageForAlert\<close> as a machine with one atomic
    step per \<open>await\<close> (phases \<open>AtGet\<close>, \<open>AtCreate\<close>, \<open>AtMail\<close>,
    \<open>AtMarkSent\<close>, \<open>AtUpdSum\<close>, then \<open>Done\<close> or \<open>Failed\<close>): \<open>task_step\<close>
    resumes a task after its pending call with that call's outcome, and every error goes to
    the outer \<open>catch\<close> (\<open>fail_with\<close>, which logs it). A \<open>world\<close> holds the table,
    the outbox, the log, a clock for \<open>LastUpdated\<close> and the configuration.
    \<open>run_task\<close> runs one task to its end on a list of outcomes (an empty list: every call
    succeeds) and terminates by the rank of the phase.
  \<^item> \<open>Concurrency\<close>: the concurrent reconciliations of one invocation as the
    labelled relation \<open>conc_step\<close>, in which any unfinished task takes its next step,
    its trace closure \<open>conc_steps\<close>, and the executable \<open>run_schedule\<close> that agrees
    with it on enabled schedules.
  \<^item> \<open>Calls\<close>: the number of external calls a reconciliation still makes
    (\<open>calls_left\<close>) and its sum over an interleaving (\<open>total_calls\<close>).
  \<^item> \<open>Clock\<close>: \<open>getCurrentMonthTimespan\<close> and \<open>getCurrentMonthString\<close>
    (lines 35--45) over time values (milliseconds since the epoch), with the
    ECMAScript calendar conversions and \<open>toISOString\<close> they call; the host's time zone
    is a fixed offset from UTC.
  \<^item> \<open>Trigger\<close>: \<open>httpTrigger\<close>: the result of the token call, the metric request
    of lines 140--146 (\<open>apiUrl\<close>, \<open>axios_request\<close>) and the API's answer to it (a
    value or the error thrown), the two clock readings (\<open>httpTrigger_start\<close>),
    the callbacks of lines 152--159, \<open>Promise.all\<close> and the response of the
    \<open>catch\<close>.
  \<^item> this theory: the properties that span the trigger and the reconciler.

  \<^bold>\<open>What is shown.\<close>
  The fault-free reconciliation refines the contract \<open>reconcile_spec\<close> (stored usage
  the maximum of old and new, alert flag set exactly when it was set or the total exceeds
  the threshold, exactly the mails the policy asks for). Under any outcomes of the calls
  a reconciliation keeps the table well formed, only raises each row in the order
  \<open>table_le\<close> (usage never lower, flag never reset), touches only its own row and
  never mails for a row whose flag is set; sequential reconciliations of one key mail at
  most once. Concurrent reconciliations of distinct keys give the same rows as isolated
  runs. The invocation answers 200 whatever the reconciliations' failures, each failure
  having been logged. The findings are theorems too: a failed mail skips
  the usage update; a mail delivered but not recorded is sent again; a create race ends
  in a logged 409; overlapping reconciliations of one key lose an update and reset the
  flag, for any record and any pair of totals on that interleaving; a series without
  metadata answers 500 before the others finish; a missing sample total makes the month's
  usage \<open>NaN\<close> for good; whenever the two clock readings of an invocation fall in
  different months the samples of the first month are filed under the second month's row;
  and on a host behind UTC the timespan's month is the local month while the row key names
  the UTC month. Row keys are unique per deployment and UTC year and month, since the
  zero-padded fields read back to the numbers printed. A reconciliation makes one to four external calls; every interleaving of an
  invocation stops within four steps per deployment and, where it stops, the invocation
  has its answer. The month string has the form \<open>YYYY-MM\<close>, and read at one instant
  on a UTC host it names the month in which the queried timespan starts.

  \<^bold>\<open>Bounds.\<close> No fuel is used: \<open>run_task\<close> is a \<open>function\<close> whose termination is
  proved from the phase rank (at most five phases), and schedules are finite lists;
  \<open>calls_left\<close> shows that at most four calls happen, and bounds every interleaving of
  \<open>n\<close> reconciliations by \<open>4 n\<close> steps. The
  outcome lists are the model's only source of nondeterminism: they stand for every
  answer the store and the mail service can give at each call.

  \<^bold>\<open>Not modelled.\<close> Token acquisition (\<open>DefaultAzureCredential\<close>) and the metric
  API are external services: the token, or the error \<open>getToken\<close> throws, and the API's
  answer to the request are inputs of \<open>httpTrigger_start\<close>.
  The function registration (\<open>app.http\<close>, lines 176--180) has no behaviour.
  The mail poller is one call whose outcome is the status. A store call that commits but
  reports an error is not among the outcomes. Daylight-saving changes of the local offset
  are not modelled (the offset is fixed), nor the \<open>RangeError\<close> of a time value
  beyond the ECMAScript range. Of the calendar conversions only what the program's
  month functions rely on is proved (first days of months round-trip, months lie in
  1--12); concrete instants are evaluated with \<open>code_simp\<close>. \<open>LastUpdated\<close> is a tick of the
  world's clock rather than an ISO string: no claim reads it.
\<close>

text \<open>C15: a metric sample without its \<open>total\<close> makes the callback's sum \<open>NaN\<close>
  (line 156). The first reconciliation then creates the month's record with usage \<open>NaN\<close>,
  and since \<open>sumToken > NaN\<close> is false (line 97) and no update ever replaces it, the
  record's usage stays \<open>NaN\<close> for the rest of the month, whatever totals later
  invocations observe: it is no longer the highest usage seen (section 3).\<close>

theorem missing_total_poisons_usage:
  assumes wf: "wf_table (tbl w)" and new: "tbl w (PARTITION, rowKey_of n m) = None"
    and miss: "\<exists>p \<in> set ps. total p = None"
  shows "\<exists>s. usage_view (tbl (evaluate_seq n m (sum_tokens ps # us) w) (PARTITION, rowKey_of n m)) = Some (NaN, s)"
proof -
  obtain w1 os1 where run: "evaluateTokenUsageForAlert n NaN m [] w = (w1, os1)" by fastforce
  from evaluate_run_inv[OF wf run] have wf1: "wf_table (tbl w1)" by (simp add: run_inv_def)
  from evaluate_new_NaN[OF new run] obtain e where "tbl w1 (PARTITION, rowKey_of n m) = Some e" "SumToken e = NaN"
    by blast
  from evaluate_seq_keeps_NaN[OF wf1 this] run sum_tokens_missing[OF miss] show ?thesis
    by (auto simp: usage_view_def)
qed

theorem missing_total_poisons_usage_witness:
  "let w = demo_world Map.empty; ps = [\<lparr>total = Some 400\<rparr>, \<lparr>total = None\<rparr>]
   in wf_table (tbl w) \<and> tbl w (PARTITION, rowKey_of ''gpt4dev'' ''2024-10'') = None \<and>
      (\<exists>p \<in> set ps. total p = None) \<and>
      (\<exists>s. usage_view (tbl (evaluate_seq ''gpt4dev'' ''2024-10'' [sum_tokens ps, Num 1200, Num 5000] w)
             (PARTITION, rowKey_of ''gpt4dev'' ''2024-10'')) = Some (NaN, s))"
proof -
  let ?w = "demo_world Map.empty" and ?ps = "[\<lparr>total = Some 400\<rparr>, \<lparr>total = None\<rparr>] :: metric_point list"
  have h: "wf_table (tbl ?w)" "tbl ?w (PARTITION, rowKey_of ''gpt4dev'' ''2024-10'') = None"
    "\<exists>p \<in> set ?ps. total p = None"
    by (simp_all add: demo_world_def)
  show ?thesis using missing_total_poisons_usage[OF h, of "[Num 1200, Num 5000]"] h by simp
qed

end
